theory Spec2Isabelle
  imports Main "HOL-Library.Word" "HOL-Library.AList" "HOL-Library.Multiset"
begin

section \<open>Data model of the BLE mesh transport (pulse-mobile/src/contexts/BleContext.tsx)\<close>

text \<open>
  A \<open>Uint8Array\<close> is a list of 8-bit words. A JavaScript string is modelled by the
  bytes of its UTF-8 encoding, one \<open>char\<close> per byte, so \<open>TextEncoder\<close> is the byte-wise
  conversion below. \<open>new TextDecoder().decode\<close> (lines 207-208) is the UTF-8 decoder
  of the Encoding Standard in its default mode: it is not fatal, so every malformed
  sequence becomes U+FFFD, and \<open>ignoreBOM\<close> is off, so a byte order mark at the start of
  the input is dropped. The only code point whose UTF-8 encoding holds a zero byte is
  U+0000, so \<open>.replace(/\0/g, "")\<close> removes exactly the zero characters.
\<close>

type_synonym byte = "8 word"

definition textEncode :: "string \<Rightarrow> byte list" where
  "textEncode t = map (\<lambda>c. word_of_nat (of_char c)) t"

definition utf8BOM :: "byte list" where
  "utf8BOM = [0xEF, 0xBB, 0xBF]"

text \<open>U+FFFD, as the bytes of its UTF-8 encoding.\<close>

definition replacement :: "byte list" where
  "replacement = [0xEF, 0xBF, 0xBD]"

text \<open>
  The range that the decoder allows for the byte after the lead byte: \<open>E0\<close> and \<open>F0\<close>
  raise the lower boundary (no overlong forms), \<open>ED\<close> and \<open>F4\<close> lower the upper one
  (no surrogates, nothing above U+10FFFF).
\<close>

definition lowerBoundary :: "byte \<Rightarrow> byte" where
  "lowerBoundary b = (if b = 0xE0 then 0xA0 else if b = 0xF0 then 0x90 else 0x80)"

definition upperBoundary :: "byte \<Rightarrow> byte" where
  "upperBoundary b = (if b = 0xED then 0x9F else if b = 0xF4 then 0x8F else 0xBF)"

text \<open>
  The decoder's handler, run over the input: \<open>pending\<close> holds the bytes of the sequence
  being read, \<open>needed\<close> the number of bytes it still needs, \<open>lower\<close> and \<open>upper\<close> the
  range for the next byte. A byte outside the range ends the sequence with U+FFFD and
  is then read again as the start of a sequence; the end of the input inside a sequence
  gives U+FFFD. A sequence that is accepted is the shortest form of its code point, so
  the string it decodes to has that same sequence as its UTF-8 bytes.
\<close>

fun utf8Decode :: "byte list \<Rightarrow> nat \<Rightarrow> byte \<Rightarrow> byte \<Rightarrow> byte list \<Rightarrow> byte list" where
  "utf8Decode pending needed lower upper [] = (if needed = 0 then [] else replacement)"
| "utf8Decode pending needed lower upper (b # bs) =
     (if needed \<noteq> 0 \<and> lower \<le> b \<and> b \<le> upper
      then (if needed = 1 then pending @ [b] @ utf8Decode [] 0 0x80 0xBF bs
            else utf8Decode (pending @ [b]) (needed - 1) 0x80 0xBF bs)
      else
        (if needed \<noteq> 0 then replacement else []) @
        (if b \<le> 0x7F then b # utf8Decode [] 0 0x80 0xBF bs
         else if 0xC2 \<le> b \<and> b \<le> 0xDF then utf8Decode [b] 1 0x80 0xBF bs
         else if 0xE0 \<le> b \<and> b \<le> 0xEF
           then utf8Decode [b] 2 (lowerBoundary b) (upperBoundary b) bs
         else if 0xF0 \<le> b \<and> b \<le> 0xF4
           then utf8Decode [b] 3 (lowerBoundary b) (upperBoundary b) bs
         else replacement @ utf8Decode [] 0 0x80 0xBF bs))"

definition textDecode :: "byte list \<Rightarrow> string" where
  "textDecode bs =
     map (\<lambda>b. char_of (unat b))
       (utf8Decode [] 0 0x80 0xBF (if take 3 bs = utf8BOM then drop 3 bs else bs))"

text \<open>
  Well-formed UTF-8, after table 3-7 of the Unicode Standard: the byte sequences that
  \<open>TextEncoder\<close> produces, which are the only messages a JavaScript string can be.
\<close>

fun wellFormedUTF8 :: "byte list \<Rightarrow> bool" where
  "wellFormedUTF8 [] = True"
| "wellFormedUTF8 (b # bs) =
     (if b \<le> 0x7F then wellFormedUTF8 bs
      else if 0xC2 \<le> b \<and> b \<le> 0xDF
        then (case bs of
                c1 # r \<Rightarrow> 0x80 \<le> c1 \<and> c1 \<le> 0xBF \<and> wellFormedUTF8 r
              | _ \<Rightarrow> False)
      else if 0xE0 \<le> b \<and> b \<le> 0xEF
        then (case bs of
                c1 # c2 # r \<Rightarrow>
                  lowerBoundary b \<le> c1 \<and> c1 \<le> upperBoundary b \<and>
                  0x80 \<le> c2 \<and> c2 \<le> 0xBF \<and> wellFormedUTF8 r
              | _ \<Rightarrow> False)
      else if 0xF0 \<le> b \<and> b \<le> 0xF4
        then (case bs of
                c1 # c2 # c3 # r \<Rightarrow>
                  lowerBoundary b \<le> c1 \<and> c1 \<le> upperBoundary b \<and>
                  0x80 \<le> c2 \<and> c2 \<le> 0xBF \<and> 0x80 \<le> c3 \<and> c3 \<le> 0xBF \<and>
                  wellFormedUTF8 r
              | _ \<Rightarrow> False)
      else False)"

definition removeNulls :: "string \<Rightarrow> string" where
  "removeNulls t = filter (\<lambda>c. c \<noteq> CHR 0x00) t"

text \<open>\<open>String.prototype.trim\<close>, for the ASCII white space and line terminators.\<close>

definition isWhiteSpace :: "char \<Rightarrow> bool" where
  "isWhiteSpace c = (c \<in> {CHR 0x09, CHR 0x0A, CHR 0x0B, CHR 0x0C, CHR 0x0D, CHR 0x20})"

definition trim :: "string \<Rightarrow> string" where
  "trim t = rev (dropWhile isWhiteSpace (rev (dropWhile isWhiteSpace t)))"

definition startsWith :: "string \<Rightarrow> string \<Rightarrow> bool" where
  "startsWith t p = (take (length p) t = p)"

definition DATA_PER_CHUNK :: nat where
  "DATA_PER_CHUNK = 6"

text \<open>
  A broadcast frame. The source handles it as a \<open>Uint8Array\<close> whose first three bytes
  are the header and whose remaining bytes are the data (\<open>chunk.slice(3)\<close>). How the
  four header fields are packed into those three bytes is decided in
  \<open>utils/bleUtils\<close>, which is not among the sources; the header is therefore kept as
  its four fields, and \<open>payload\<close> is \<open>chunk.slice(3)\<close>.
\<close>

record chunk =
  hdr_id :: nat
  hdr_total :: nat
  hdr_seq :: nat
  hdr_ack :: bool
  payload :: "byte list"

record decoded =
  d_id :: nat
  d_totalChunks :: nat
  d_chunkNumber :: nat
  d_isAck :: bool
  decodedData :: string

text \<open>
  Modelled from the spec: \<open>decodeSingleChunk\<close> of \<open>utils/bleUtils\<close> is missing from
  the sources. Section 4.1: decode is a pure, stateless parse of a chunk into
  id, total, sequence, ack flag and data fragment; malformed or truncated input
  yields a decode failure. A frame whose data is not of the fixed size is malformed.
\<close>

definition decodeSingleChunk :: "chunk \<Rightarrow> decoded option" where
  "decodeSingleChunk c =
     (if length (payload c) = DATA_PER_CHUNK
      then Some \<lparr>d_id = hdr_id c, d_totalChunks = hdr_total c, d_chunkNumber = hdr_seq c,
                 d_isAck = hdr_ack c, decodedData = textDecode (payload c)\<rparr>
      else None)"

text \<open>
  Modelled from the spec: the fragment count of \<open>encodeMessageToChunks\<close>
  (\<open>utils/bleUtils\<close>, missing from the sources). Section 4.1: the fragment count is
  ceil(len / capacity), with minimum 1.
\<close>

definition fragmentCount :: "byte list \<Rightarrow> nat" where
  "fragmentCount bs = max 1 ((length bs + DATA_PER_CHUNK - 1) div DATA_PER_CHUNK)"

text \<open>
  Modelled from the spec: the data of fragment number k + 1 of \<open>encodeMessageToChunks\<close>
  (\<open>utils/bleUtils\<close>, missing from the sources). Section 4.1: the message is split into
  fragments of the fixed data capacity, and the final fragment is zero-padded to the
  fixed size.
\<close>

definition fragment :: "byte list \<Rightarrow> nat \<Rightarrow> byte list" where
  "fragment bs k =
     (let d = take DATA_PER_CHUNK (drop (DATA_PER_CHUNK * k) bs)
      in d @ replicate (DATA_PER_CHUNK - length d) 0)"

text \<open>
  Modelled from the spec: \<open>encodeMessageToChunks\<close> of \<open>utils/bleUtils\<close> is missing
  from the sources. Section 4.1: encode splits the message into an ordered list of
  chunks, sequence numbers are 1-based and contiguous up to the total, every header
  carries the total, the ack flag and one id. The id is an argument: either the id to
  reuse or the one the encoder generates.
\<close>

definition encodeMessageToChunks :: "string \<Rightarrow> bool \<Rightarrow> nat \<Rightarrow> chunk list" where
  "encodeMessageToChunks message ack ident =
     (let bs = textEncode message; n = fragmentCount bs
      in map (\<lambda>k. \<lparr>hdr_id = ident, hdr_total = n, hdr_seq = k + 1, hdr_ack = ack,
                     payload = fragment bs k\<rparr>) [0..<n])"

text \<open>
  \<open>MessageState\<close> (declared in \<open>utils/bleUtils\<close>, built at lines 173-180, 289-296 and
  579-586). A JavaScript \<open>Map\<close> keeps its keys distinct and in insertion order:
  \<open>Map.set\<close> is \<open>AList.update\<close> (replace in place, or append), \<open>Map.get\<close> is
  \<open>map_of\<close>, \<open>Map.size\<close> is the length and \<open>Map.delete\<close> is \<open>AList.delete\<close>.
\<close>

record MessageState =
  ms_id :: nat
  totalChunks :: nat
  isComplete :: bool
  isAck :: bool
  chunks :: "(nat \<times> chunk) list"
  fullMessage :: string

datatype js_error = TypeError | RangeError

text \<open>
  What \<open>handleIncomingChunk\<close> does after a message completes (lines 215-237): nothing
  for an acknowledgement, \<open>handleApiResponse(id, fullMessage)\<close> when online, the
  \<open>JSON.parse\<close> and \<open>handleRelayMessage\<close> path when offline. \<open>Uncaught\<close> is an exception
  that leaves the handler.
\<close>

datatype dispatch =
    NoDispatch
  | CallHandleApiResponse nat string
  | ParseAndHandleRelay string
  | Uncaught js_error

record PendingQuery =
  queryId :: string
  messageId :: string
  pq_text :: string

record ChatMessage =
  cm_id :: string
  cm_text :: string
  cm_user :: nat

text \<open>
  The refs of \<open>BleProvider\<close> (lines 89-120), the \<open>pendingQueries\<close> and \<open>messages\<close> of
  \<open>ChatProvider\<close>, whose callback is the only one ever registered, and two logs of the
  effects that leave the state: the frames handed to \<open>broadcastOverBle\<close> and the
  invocations of the relay response callback.
\<close>

record ble =
  masterState :: "nat \<rightharpoonup> MessageState"
  broadcastQueue :: "(nat \<times> chunk list) list"
  masterInterval :: bool
  isBroadcasting :: bool
  broadcastCursor :: "nat \<times> nat"
  ownMessageIds :: "nat set"
  receivedMessageIds :: "nat set"
  peerActivity :: "nat \<rightharpoonup> nat"
  deviceId :: string
  peerHeartbeats :: "(string \<times> nat) list"
  relayResponseCallback :: bool
  processedRelayQueries :: "string set"
  rebroadcastedQueryIds :: "string set"
  querySenderMap :: "string \<rightharpoonup> string"
  pendingQueries :: "PendingQuery list"
  messages :: "ChatMessage list"
  broadcastLog :: "chunk list"
  callbackLog :: "(string \<times> string) list"

section \<open>Reassembly: handleIncomingChunk (lines 128-239)\<close>

text \<open>
  Lines 194-209. \<open>fullBinary\<close> starts as \<open>totalChunks * DATA_PER_CHUNK\<close> zero bytes;
  for i = 1 .. totalChunks the data of chunk i is written at \<open>offset\<close>.
  \<open>entry.chunks.get(i)!.slice(3)\<close> raises a TypeError when chunk i is absent, and
  \<open>fullBinary.set(part, offset)\<close> a RangeError when the part does not fit.
\<close>

fun placeParts :: "(nat \<times> chunk) list \<Rightarrow> nat list \<Rightarrow> byte list \<Rightarrow> nat \<Rightarrow> js_error + byte list" where
  "placeParts cs [] fullBinary offset = Inr fullBinary"
| "placeParts cs (i # is) fullBinary offset =
     (case map_of cs i of
        None \<Rightarrow> Inl TypeError
      | Some c \<Rightarrow>
          (let part = payload c in
           if offset + length part > length fullBinary then Inl RangeError
           else placeParts cs is
                  (take offset fullBinary @ part @ drop (offset + length part) fullBinary)
                  (offset + length part)))"

definition reassemble :: "MessageState \<Rightarrow> js_error + string" where
  "reassemble entry =
     (case placeParts (chunks entry) [1..<Suc (totalChunks entry)]
             (replicate (totalChunks entry * DATA_PER_CHUNK) 0) 0 of
        Inl e \<Rightarrow> Inl e
      | Inr fullBinary \<Rightarrow> Inr (removeNulls (textDecode fullBinary)))"

text \<open>Lines 162-170: a stored request is turned, in place, into the state of its reply.\<close>

definition ackTransition :: "MessageState \<Rightarrow> nat \<Rightarrow> MessageState" where
  "ackTransition entry newTotal =
     entry\<lparr>isAck := True, isComplete := False, fullMessage := [], chunks := [],
           totalChunks := newTotal\<rparr>"

text \<open>Lines 173-180: the entry made for an id seen for the first time.\<close>

definition newEntry :: "decoded \<Rightarrow> MessageState" where
  "newEntry d =
     \<lparr>ms_id = d_id d, totalChunks = d_totalChunks d, isComplete = False, isAck = d_isAck d,
      chunks = [], fullMessage = []\<rparr>"

text \<open>
  Lines 184-238, on the entry that lines 162-182 leave in \<open>masterState\<close>. The entry is
  an object shared with the map, so each assignment to it is an update of the map.
\<close>

definition storeChunk :: "bool \<Rightarrow> decoded \<Rightarrow> chunk \<Rightarrow> MessageState \<Rightarrow> ble \<Rightarrow> ble \<times> dispatch" where
  "storeChunk hasInternet d chunk entry s =
     (if isComplete entry \<or> map_of (chunks entry) (d_chunkNumber d) \<noteq> None
      then (s\<lparr>masterState := (masterState s)(d_id d \<mapsto> entry)\<rparr>, NoDispatch)
      else
        (let entry1 = entry\<lparr>chunks := AList.update (d_chunkNumber d) chunk (chunks entry)\<rparr> in
         if length (chunks entry1) = totalChunks entry1
         then
           (let entry2 = entry1\<lparr>isComplete := True\<rparr> in
            case reassemble entry2 of
              Inl e \<Rightarrow> (s\<lparr>masterState := (masterState s)(d_id d \<mapsto> entry2)\<rparr>, Uncaught e)
            | Inr text \<Rightarrow>
                (s\<lparr>masterState := (masterState s)(d_id d \<mapsto> entry2\<lparr>fullMessage := text\<rparr>)\<rparr>,
                 if \<not> isAck entry2
                 then (if hasInternet then CallHandleApiResponse (d_id d) text
                       else ParseAndHandleRelay text)
                 else NoDispatch))
         else (s\<lparr>masterState := (masterState s)(d_id d \<mapsto> entry1)\<rparr>, NoDispatch)))"

text \<open>
  \<open>hasInternet\<close> is the value the closure captured, \<open>now\<close> is \<open>Date.now()\<close>.
\<close>

definition handleIncomingChunk :: "bool \<Rightarrow> nat \<Rightarrow> chunk \<Rightarrow> ble \<Rightarrow> ble \<times> dispatch" where
  "handleIncomingChunk hasInternet now chunk s =
     (case decodeSingleChunk chunk of
        None \<Rightarrow> (s, NoDispatch)
      | Some d \<Rightarrow>
          (let trimmedData = trim (decodedData d) in
           if startsWith trimmedData ''HEARTBEAT:''
           then
             (let peerDeviceId = trim (drop (length ''HEARTBEAT:'') trimmedData) in
              if peerDeviceId \<noteq> [] \<and> peerDeviceId \<noteq> deviceId s
              then (s\<lparr>peerHeartbeats := AList.update peerDeviceId now (peerHeartbeats s)\<rparr>,
                    NoDispatch)
              else (s, NoDispatch))
           else if d_id d \<in> ownMessageIds s then (s, NoDispatch)
           else
             (let s1 = (if d_id d \<notin> receivedMessageIds s
                        then s\<lparr>receivedMessageIds := insert (d_id d) (receivedMessageIds s),
                               peerActivity := (peerActivity s)(d_id d \<mapsto> now)\<rparr>
                        else s)
              in case masterState s (d_id d) of
                   Some entry \<Rightarrow>
                     storeChunk hasInternet d chunk
                       (if \<not> isAck entry \<and> d_isAck d
                        then ackTransition entry (d_totalChunks d) else entry) s1
                 | None \<Rightarrow> storeChunk hasInternet d chunk (newEntry d) s1)))"

text \<open>
  What a receiver may hold under an id for the fragments \<open>E\<close> of a message, all with
  ack flag \<open>ack\<close>, to complete it: no entry; or a request while the fragments are those
  of its acknowledgement, which lines 162-170 then reset; or an entry of the same role
  and total that is still collecting and holds some of these fragments, each under its
  sequence number. \<open>heldFragments\<close> are the fragments that stay stored when the first of
  them arrives.
\<close>

definition awaitsFragments :: "chunk list \<Rightarrow> bool \<Rightarrow> MessageState option \<Rightarrow> bool" where
  "awaitsFragments E ack stored =
     (case stored of
        None \<Rightarrow> True
      | Some e \<Rightarrow>
          (\<not> isAck e \<and> ack) \<or>
          (isAck e = ack \<and> \<not> isComplete e \<and> totalChunks e = length E \<and>
           length (chunks e) < length E \<and> distinct (map fst (chunks e)) \<and>
           (\<forall>p \<in> set (chunks e). snd p \<in> set E \<and> fst p = hdr_seq (snd p))))"

definition heldFragments :: "bool \<Rightarrow> MessageState option \<Rightarrow> chunk list" where
  "heldFragments ack stored =
     (case stored of
        None \<Rightarrow> []
      | Some e \<Rightarrow> if \<not> isAck e \<and> ack then [] else map snd (chunks e))"

text \<open>
  The scanner calls \<open>handleIncomingChunk\<close> once per received frame (lines 818-821).
  \<open>deliver\<close> feeds it a list of frames in order and collects what it hands on.
\<close>

fun deliver :: "bool \<Rightarrow> nat \<Rightarrow> chunk list \<Rightarrow> ble \<Rightarrow> ble \<times> dispatch list" where
  "deliver online now [] s = (s, [])"
| "deliver online now (c # cs) s =
     (case handleIncomingChunk online now c s of
        (s1, d) \<Rightarrow>
          (case deliver online now cs s1 of
             (s2, ds) \<Rightarrow> (s2, (if d = NoDispatch then ds else d # ds))))"

section \<open>Broadcast scheduler (lines 501-563)\<close>

definition startMasterBroadcastLoop :: "ble \<Rightarrow> ble" where
  "startMasterBroadcastLoop s =
     s\<lparr>isBroadcasting := True, broadcastCursor := (0, 0), masterInterval := True\<rparr>"

definition stopMasterBroadcastLoop :: "ble \<Rightarrow> ble" where
  "stopMasterBroadcastLoop s =
     s\<lparr>masterInterval := False, isBroadcasting := False, broadcastCursor := (0, 0)\<rparr>"

definition addToBroadcastQueue :: "nat \<Rightarrow> chunk list \<Rightarrow> ble \<Rightarrow> ble" where
  "addToBroadcastQueue ident cs s =
     (let s1 = s\<lparr>broadcastQueue := AList.update ident cs (broadcastQueue s)\<rparr>
      in if \<not> masterInterval s1 then startMasterBroadcastLoop s1 else s1)"

text \<open>
  The body of the \<open>setInterval\<close> callback, lines 516-550: one scheduler tick. The call of
  \<open>broadcastOverBle\<close> is recorded in \<open>broadcastLog\<close>.
\<close>

definition tick :: "ble \<Rightarrow> ble" where
  "tick s =
     (let entries = broadcastQueue s in
      if length entries = 0 then stopMasterBroadcastLoop s
      else
        (let queueIndex = (if fst (broadcastCursor s) \<ge> length entries then 0
                           else fst (broadcastCursor s));
             currentId = fst (entries ! queueIndex);
             chunksToBroadcast = snd (entries ! queueIndex)
         in if length chunksToBroadcast = 0
            then s\<lparr>broadcastQueue := AList.delete currentId entries, broadcastCursor := (0, 0)\<rparr>
            else
              (let chunkIndex = (if snd (broadcastCursor s) \<ge> length chunksToBroadcast then 0
                                 else snd (broadcastCursor s));
                   s1 = s\<lparr>broadcastLog := broadcastLog s @ [chunksToBroadcast ! chunkIndex]\<rparr>
               in if chunkIndex + 1 \<ge> length chunksToBroadcast
                  then s1\<lparr>broadcastCursor :=
                             ((if queueIndex + 1 \<ge> length entries then 0 else queueIndex + 1), 0)\<rparr>
                  else s1\<lparr>broadcastCursor := (queueIndex, chunkIndex + 1)\<rparr>)))"

fun ticks :: "nat \<Rightarrow> ble \<Rightarrow> ble" where
  "ticks 0 s = s"
| "ticks (Suc n) s = ticks n (tick s)"

text \<open>
  The order of one traversal. \<open>flatQueue\<close> lists the chunks of the queue entry by entry;
  \<open>cursorPos\<close> is the place in that list of the chunk that the next tick sends, after
  the two range checks of lines 524 and 533.
\<close>

definition flatQueue :: "(nat \<times> chunk list) list \<Rightarrow> chunk list" where
  "flatQueue q = concat (map snd q)"

definition cursorPos :: "(nat \<times> chunk list) list \<Rightarrow> nat \<times> nat \<Rightarrow> nat" where
  "cursorPos q cur =
     (let queueIndex = (if fst cur \<ge> length q then 0 else fst cur);
          chunkIndex = (if snd cur \<ge> length (snd (q ! queueIndex)) then 0 else snd cur)
      in length (flatQueue (take queueIndex q)) + chunkIndex)"

section \<open>Sending a message: broadcastMessage (lines 566-597)\<close>

text \<open>
  \<open>fresh\<close> is the id that \<open>encodeMessageToChunks\<close> generates for a message sent with
  \<open>{isAck: false}\<close>. \<open>decodeSingleChunk(chunks[0])!.id\<close> raises when there is no first
  chunk or when it does not decode; the exception is rethrown at line 595, before
  anything is written.
\<close>

definition newState :: "nat \<Rightarrow> chunk list \<Rightarrow> string \<Rightarrow> MessageState" where
  "newState ident cs message =
     \<lparr>ms_id = ident, totalChunks = length cs, isComplete = True, isAck = False,
      chunks = zip [1..<Suc (length cs)] cs, fullMessage = message\<rparr>"

definition broadcastMessage :: "nat \<Rightarrow> string \<Rightarrow> ble \<Rightarrow> js_error + ble" where
  "broadcastMessage fresh message s =
     (let cs = encodeMessageToChunks message False fresh in
      case cs of
        [] \<Rightarrow> Inl TypeError
      | c # _ \<Rightarrow>
          (case decodeSingleChunk c of
             None \<Rightarrow> Inl TypeError
           | Some d \<Rightarrow>
               (let s1 = s\<lparr>ownMessageIds := insert (d_id d) (ownMessageIds s)\<rparr>;
                    s2 = s1\<lparr>masterState :=
                              (masterState s1)(d_id d \<mapsto> newState (d_id d) cs message)\<rparr>
                in Inr (addToBroadcastQueue (d_id d) cs s2))))"

section \<open>Relay application layer (lines 320-499) and the chat callback\<close>

datatype relay_type = RELAY_QUERY | RELAY_RESPONSE

text \<open>\<open>location\<close> and \<open>sos_data\<close> are carried as opaque JSON text.\<close>

record RelayMessage =
  rm_type :: relay_type
  query_id :: string
  query_text :: "string option"
  query_type :: "string option"
  location :: "string option"
  original_device :: "string option"
  response :: "string option"
  sos_data :: "string option"

text \<open>
  How the \<open>fetch\<close> of lines 360-376 ends: the promise rejects (no network, timeout),
  the status is not OK, the body is not JSON, or the body parses to \<open>result\<close> with its
  \<open>success\<close> flag and \<open>response\<close> text.
\<close>

datatype fetch_outcome =
    NetworkError
  | HttpError nat
  | BodyNotJson
  | Result bool "string option"

text \<open>
  What a call reads from outside the protocol state: the connectivity flag its closure
  captured, the id the encoder generates, \<open>JSON.stringify\<close>, the outcome of the backend
  call, \<open>Math.random().toString()\<close>, and the unwrapping of a nested response text
  (ChatContext lines 218-228).
\<close>

text \<open>The outcomes on which lines 360-376 raise, into the handler of lines 387-390.\<close>

definition backendFailed :: "fetch_outcome \<Rightarrow> bool" where
  "backendFailed outcome =
     (case outcome of
        NetworkError \<Rightarrow> True
      | HttpError status \<Rightarrow> True
      | BodyNotJson \<Rightarrow> True
      | Result success resp \<Rightarrow> False)"

record env =
  hasInternet :: bool
  freshId :: nat
  stringify :: "RelayMessage \<Rightarrow> string"
  fetchOutcome :: fetch_outcome
  randomKey :: string
  responseText :: "string \<Rightarrow> string"

text \<open>The callback that ChatProvider registers (ChatContext lines 210-252).\<close>

definition chatRelayResponse :: "env \<Rightarrow> string \<Rightarrow> string \<Rightarrow> ble \<Rightarrow> ble" where
  "chatRelayResponse e qid resp s =
     (case find (\<lambda>q. queryId q = qid) (pendingQueries s) of
        None \<Rightarrow> s
      | Some pending \<Rightarrow>
          (let aiMessage = \<lparr>cm_id = randomKey e, cm_text = responseText e resp, cm_user = 2\<rparr>
           in s\<lparr>messages := aiMessage # filter (\<lambda>m. cm_id m \<noteq> messageId pending) (messages s),
                 pendingQueries := filter (\<lambda>q. queryId q \<noteq> qid) (pendingQueries s)\<rparr>))"

definition onRelayResponse :: "ble \<Rightarrow> ble" where
  "onRelayResponse s = s\<lparr>relayResponseCallback := True\<rparr>"

text \<open>Lines 472-494; the message is the object built at lines 477-481.\<close>

definition responseMessage :: "string \<Rightarrow> string \<Rightarrow> RelayMessage" where
  "responseMessage qid resp =
     \<lparr>rm_type = RELAY_RESPONSE, query_id = qid, query_text = None, query_type = None,
      location = None, original_device = None, response = Some resp, sos_data = None\<rparr>"

definition relayResponse :: "env \<Rightarrow> string \<Rightarrow> string \<Rightarrow> ble \<Rightarrow> js_error + ble" where
  "relayResponse e qid resp s =
     broadcastMessage (freshId e) (stringify e (responseMessage qid resp)) s"

text \<open>
  A JavaScript value is truthy here when it is present and not the empty string.
\<close>

definition truthy :: "string option \<Rightarrow> bool" where
  "truthy v = (case v of None \<Rightarrow> False | Some t \<Rightarrow> t \<noteq> [])"

text \<open>
  An error raised inside is caught and logged (lines 387-390 and 430-432), so the handler
  always returns; the state is then the one reached when the error was raised.
\<close>

definition handleRelayMessage :: "env \<Rightarrow> RelayMessage \<Rightarrow> ble \<Rightarrow> ble" where
  "handleRelayMessage e message s =
     (case rm_type message of
        RELAY_QUERY \<Rightarrow>
          if query_id message \<in> processedRelayQueries s then s
          else if query_id message \<in> rebroadcastedQueryIds s then s
          else if hasInternet e
          then
            (let s1 = s\<lparr>processedRelayQueries := insert (query_id message) (processedRelayQueries s)\<rparr>
             in case fetchOutcome e of
                  Result success resp \<Rightarrow>
                    if success \<and> truthy resp
                    then (case relayResponse e (query_id message) (the resp) s1 of
                            Inl err \<Rightarrow> s1 | Inr s2 \<Rightarrow> s2)
                    else s1
                | _ \<Rightarrow> s1)
          else
            (let s1 = s\<lparr>rebroadcastedQueryIds := insert (query_id message) (rebroadcastedQueryIds s)\<rparr>;
                 s2 = (if truthy (original_device message)
                       then s1\<lparr>querySenderMap :=
                                 (querySenderMap s1)(query_id message \<mapsto> the (original_device message))\<rparr>
                       else s1)
             in case broadcastMessage (freshId e) (stringify e message) s2 of
                  Inl err \<Rightarrow> s2 | Inr s3 \<Rightarrow> s3)
      | RELAY_RESPONSE \<Rightarrow>
          (let s1 = (if relayResponseCallback s \<and> truthy (response message)
                     then chatRelayResponse e (query_id message) (the (response message))
                            (s\<lparr>callbackLog := callbackLog s @
                                  [(query_id message, the (response message))]\<rparr>)
                     else s)
           in if \<not> hasInternet e \<and> (''response-'' @ query_id message) \<notin> rebroadcastedQueryIds s1
              then
                (let s2 = s1\<lparr>rebroadcastedQueryIds :=
                               insert (''response-'' @ query_id message) (rebroadcastedQueryIds s1)\<rparr>
                 in case broadcastMessage (freshId e) (stringify e message) s2 of
                      Inl err \<Rightarrow> s2 | Inr s3 \<Rightarrow> s3)
              else s1))"

text \<open>Lines 436-469; the message is the object built at lines 452-460.\<close>

definition queryMessage ::
  "string \<Rightarrow> string \<Rightarrow> string \<Rightarrow> string option \<Rightarrow> string \<Rightarrow> string option \<Rightarrow> RelayMessage" where
  "queryMessage qid queryText queryType loc originalDevice sosData =
     \<lparr>rm_type = RELAY_QUERY, query_id = qid, query_text = Some queryText,
      query_type = Some queryType, location = loc, original_device = Some originalDevice,
      response = None, sos_data = sosData\<rparr>"

definition relayQuery ::
  "env \<Rightarrow> string \<Rightarrow> string \<Rightarrow> string \<Rightarrow> string option \<Rightarrow> string \<Rightarrow> string option \<Rightarrow> ble \<Rightarrow> js_error + ble" where
  "relayQuery e qid queryText queryType loc originalDevice sosData s =
     (if hasInternet e then Inr s
      else broadcastMessage (freshId e)
             (stringify e (queryMessage qid queryText queryType loc originalDevice sosData)) s)"

section \<open>The connectivity effect (lines 741-769)\<close>

definition keepOnline :: "ble \<Rightarrow> nat \<times> chunk list \<Rightarrow> bool" where
  "keepOnline s entry =
     (case masterState s (fst entry) of None \<Rightarrow> False | Some st \<Rightarrow> isAck st)"

definition connectivityEffect :: "bool \<Rightarrow> ble \<Rightarrow> ble" where
  "connectivityEffect online s =
     (if online
      then
        (let entriesToKeep = filter (keepOnline s) (broadcastQueue s);
             s1 = s\<lparr>broadcastQueue :=
                      foldl (\<lambda>q entry. AList.update (fst entry) (snd entry) q) [] entriesToKeep\<rparr>
         in if length (broadcastQueue s1) = 0 \<and> masterInterval s1
            then stopMasterBroadcastLoop s1 else s1)
      else s)"

section \<open>Runs of the device\<close>

text \<open>
  The entry points that the timer, the scanner, the relay layer, the connectivity
  signal and the screens call, one event per call. An exception that reaches the
  caller leaves the state as it was. \<open>clearAllAndStop\<close>, the full manual reset, is not an
  event of a run.
\<close>

datatype event =
    Tick
  | Incoming bool nat chunk
  | Relay env RelayMessage
  | Connectivity bool
  | Broadcast nat string
  | Query env string string string "string option" string "string option"

fun step :: "event \<Rightarrow> ble \<Rightarrow> ble" where
  "step Tick s = tick s"
| "step (Incoming online now c) s = fst (handleIncomingChunk online now c s)"
| "step (Relay e m) s = handleRelayMessage e m s"
| "step (Connectivity online) s = connectivityEffect online s"
| "step (Broadcast fresh message) s =
     (case broadcastMessage fresh message s of Inl err \<Rightarrow> s | Inr s1 \<Rightarrow> s1)"
| "step (Query e qid queryText queryType loc dev sos) s =
     (case relayQuery e qid queryText queryType loc dev sos s of Inl err \<Rightarrow> s | Inr s1 \<Rightarrow> s1)"

fun run :: "event list \<Rightarrow> ble \<Rightarrow> ble" where
  "run [] s = s"
| "run (ev # evs) s = run evs (step ev s)"

text \<open>The refs as \<open>BleProvider\<close> and \<open>ChatProvider\<close> initialise them (lines 81-120).\<close>

definition mountState :: "string \<Rightarrow> ble" where
  "mountState dev =
     \<lparr>masterState = Map.empty, broadcastQueue = [], masterInterval = False,
      isBroadcasting = False, broadcastCursor = (0, 0), ownMessageIds = {},
      receivedMessageIds = {}, peerActivity = Map.empty, deviceId = dev,
      peerHeartbeats = [], relayResponseCallback = False, processedRelayQueries = {},
      rebroadcastedQueryIds = {}, querySenderMap = Map.empty, pendingQueries = [],
      messages = [], broadcastLog = [], callbackLog = []\<rparr>"

text \<open>
  \<open>handleApiResponse\<close>, lines 288-299: the acknowledgement of a stored incident report
  is encoded under the id of the report, stored as a complete message state with the
  ack flag set, and queued.
\<close>

definition queueAck :: "nat \<Rightarrow> string \<Rightarrow> ble \<Rightarrow> ble" where
  "queueAck ident apiResponse s =
     (let ackChunks = encodeMessageToChunks apiResponse True ident;
          ackState = \<lparr>ms_id = ident, totalChunks = length ackChunks, isComplete = True,
                      isAck = True, chunks = zip [1..<Suc (length ackChunks)] ackChunks,
                      fullMessage = apiResponse\<rparr>
      in addToBroadcastQueue ident ackChunks
           (s\<lparr>masterState := (masterState s)(ident \<mapsto> ackState)\<rparr>))"

text \<open>
  \<open>sendMessage\<close> of ChatProvider, offline branch, lines 146-160: the placeholder message
  is put in front of the messages and the query is tracked as pending. The text of the
  placeholder (line 149) starts with U+1F504, four bytes in UTF-8.
\<close>

definition searchingText :: string where
  "searchingText =
     [CHR 0xF0, CHR 0x9F, CHR 0x94, CHR 0x84]
     @ '' Searching for network connection via nearby devices...''"

definition trackPendingQuery :: "string \<Rightarrow> string \<Rightarrow> string \<Rightarrow> ble \<Rightarrow> ble" where
  "trackPendingQuery qid mid txt s =
     s\<lparr>messages := \<lparr>cm_id = mid, cm_text = searchingText, cm_user = 2\<rparr> # messages s,
       pendingQueries := pendingQueries s @ [\<lparr>queryId = qid, messageId = mid, pq_text = txt\<rparr>]\<rparr>"

text \<open>Two frames with the same id: the one chunk of a request, and the first of the two
  chunks of a reply to it.\<close>

definition helloChunk :: chunk where
  "helloChunk = \<lparr>hdr_id = 5, hdr_total = 1, hdr_seq = 1, hdr_ack = False,
                 payload = [0x48, 0x45, 0x4C, 0x4C, 0x4F, 0]\<rparr>"

definition replyChunk :: chunk where
  "replyChunk = \<lparr>hdr_id = 5, hdr_total = 2, hdr_seq = 1, hdr_ack = True,
                 payload = [0x4F, 0x4B, 0x20, 0x66, 0x69, 0x6E]\<rparr>"

text \<open>The same first chunk of a reply, for a request sent under the id 7.\<close>

definition ownReplyChunk :: chunk where
  "ownReplyChunk = \<lparr>hdr_id = 7, hdr_total = 2, hdr_seq = 1, hdr_ack = True,
                    payload = [0x4F, 0x4B, 0x20, 0x66, 0x69, 0x6E]\<rparr>"

text \<open>
  The scenario of section 8: a message of 20 bytes makes 4 fragments, which arrive in
  the order 4, 2, 1, 3.
\<close>

definition scenarioMessage :: string where
  "scenarioMessage = ''ABCDEFGHIJKLMNOPQRST''"

definition scenarioOrder :: "chunk list" where
  "scenarioOrder =
     (let E = encodeMessageToChunks scenarioMessage False 5 in [E ! 3, E ! 1, E ! 0, E ! 2])"

text \<open>
  A concrete environment for running the model: \<open>plainText\<close> stands in for
  \<open>JSON.stringify\<close>, and a response text is delivered as it is.
\<close>

definition plainText :: "RelayMessage \<Rightarrow> string" where
  "plainText m =
     (case rm_type m of RELAY_QUERY \<Rightarrow> ''Q '' | RELAY_RESPONSE \<Rightarrow> ''R '') @ query_id m"

definition deviceEnv :: "bool \<Rightarrow> nat \<Rightarrow> fetch_outcome \<Rightarrow> env" where
  "deviceEnv online fresh outcome =
     \<lparr>hasInternet = online, freshId = fresh, stringify = plainText, fetchOutcome = outcome,
      randomKey = ''0.5'', responseText = (\<lambda>t. t)\<rparr>"

section \<open>The codec always yields a first chunk that decodes\<close>

lemma fragmentCount_pos: "0 < fragmentCount bs"
  by (simp add: fragmentCount_def)

lemma length_fragment: "length (fragment bs k) = DATA_PER_CHUNK"
  by (simp add: fragment_def Let_def)

lemma length_encode: "length (encodeMessageToChunks m a i) = fragmentCount (textEncode m)"
  by (simp add: encodeMessageToChunks_def Let_def)

lemma encode_nth:
  "k < fragmentCount (textEncode m) \<Longrightarrow>
   encodeMessageToChunks m a i ! k =
     \<lparr>hdr_id = i, hdr_total = fragmentCount (textEncode m), hdr_seq = Suc k, hdr_ack = a,
      payload = fragment (textEncode m) k\<rparr>"
  by (simp add: encodeMessageToChunks_def Let_def)

lemma encode_Cons:
  "\<exists>cs. encodeMessageToChunks m a i =
     \<lparr>hdr_id = i, hdr_total = fragmentCount (textEncode m), hdr_seq = 1, hdr_ack = a,
      payload = fragment (textEncode m) 0\<rparr> # cs"
proof -
  let ?E = "encodeMessageToChunks m a i"
  have "?E \<noteq> []"
    using length_encode[of m a i] fragmentCount_pos[of "textEncode m"] by auto
  then obtain c cs where e: "?E = c # cs" by (cases ?E) auto
  have "?E ! 0 = c" using e by simp
  then show ?thesis
    using encode_nth[of 0 m a i] fragmentCount_pos[of "textEncode m"] e by auto
qed

lemma decode_encoded:
  "decodeSingleChunk
     \<lparr>hdr_id = i, hdr_total = n, hdr_seq = q, hdr_ack = a, payload = fragment bs k\<rparr>
   = Some \<lparr>d_id = i, d_totalChunks = n, d_chunkNumber = q, d_isAck = a,
           decodedData = textDecode (fragment bs k)\<rparr>"
  by (simp add: decodeSingleChunk_def length_fragment)

text \<open>So \<open>broadcastMessage\<close> never takes its error branch.\<close>

lemma broadcastMessage_ok:
  "broadcastMessage fresh message s =
     Inr (addToBroadcastQueue fresh (encodeMessageToChunks message False fresh)
            (s\<lparr>ownMessageIds := insert fresh (ownMessageIds s),
               masterState := (masterState s)
                 (fresh \<mapsto> newState fresh (encodeMessageToChunks message False fresh) message)\<rparr>))"
proof -
  obtain cs where e: "encodeMessageToChunks message False fresh =
     \<lparr>hdr_id = fresh, hdr_total = fragmentCount (textEncode message), hdr_seq = 1,
      hdr_ack = False, payload = fragment (textEncode message) 0\<rparr> # cs"
    using encode_Cons by blast
  show ?thesis
    unfolding broadcastMessage_def Let_def
    by (simp add: e decode_encoded)
qed

lemma broadcastMessage_fields:
  assumes "broadcastMessage fresh message s = r"
  shows "\<exists>s1. r = Inr s1 \<and>
     broadcastQueue s1 =
       AList.update fresh (encodeMessageToChunks message False fresh) (broadcastQueue s) \<and>
     ownMessageIds s1 = insert fresh (ownMessageIds s) \<and>
     masterState s1 = (masterState s)
       (fresh \<mapsto> newState fresh (encodeMessageToChunks message False fresh) message) \<and>
     masterInterval s1 \<and>
     rebroadcastedQueryIds s1 = rebroadcastedQueryIds s \<and>
     processedRelayQueries s1 = processedRelayQueries s \<and>
     querySenderMap s1 = querySenderMap s \<and>
     pendingQueries s1 = pendingQueries s \<and> messages s1 = messages s \<and>
     callbackLog s1 = callbackLog s \<and> broadcastLog s1 = broadcastLog s \<and>
     relayResponseCallback s1 = relayResponseCallback s"
  using assms unfolding broadcastMessage_ok
  by (auto simp: addToBroadcastQueue_def startMasterBroadcastLoop_def Let_def)

section \<open>relayQuery is gated on connectivity\<close>

text \<open>
  Claim C9. With connectivity, \<open>relayQuery\<close> returns normally and the whole state, in
  particular the broadcast queue, the reassembly map and \<open>ownMessageIds\<close>, is what it
  was. Without connectivity it returns normally too, having encoded the query under the
  generated id, marked that id as its own, stored its message state and enqueued its
  chunks.
\<close>

theorem relayQuery_gated_on_connectivity:
  "(hasInternet e \<longrightarrow> relayQuery e qid queryText queryType loc dev sos s = Inr s) \<and>
   (\<not> hasInternet e \<longrightarrow>
      (\<exists>s1. relayQuery e qid queryText queryType loc dev sos s = Inr s1 \<and>
        broadcastQueue s1 =
          AList.update (freshId e)
            (encodeMessageToChunks
               (stringify e (queryMessage qid queryText queryType loc dev sos)) False (freshId e))
            (broadcastQueue s) \<and>
        ownMessageIds s1 = insert (freshId e) (ownMessageIds s) \<and>
        masterState s1 (freshId e) \<noteq> None))"
proof (cases "hasInternet e")
  case True
  then show ?thesis by (simp add: relayQuery_def)
next
  case False
  then show ?thesis
    using broadcastMessage_fields[OF refl, of "freshId e" _ s]
    by (simp add: relayQuery_def) (metis fun_upd_same)
qed

theorem relayQuery_gated_on_connectivity_witness:
  "hasInternet (deviceEnv True 7 NetworkError) \<and>
   relayQuery (deviceEnv True 7 NetworkError) ''q1'' ''hi'' ''assistant'' None ''devA'' None
     (mountState ''devB'') = Inr (mountState ''devB'') \<and>
   \<not> hasInternet (deviceEnv False 7 NetworkError) \<and>
   (\<exists>s1. relayQuery (deviceEnv False 7 NetworkError) ''q1'' ''hi'' ''assistant'' None ''devA'' None
            (mountState ''devB'') = Inr s1 \<and>
         broadcastQueue s1 = [(7, encodeMessageToChunks ''Q q1'' False 7)] \<and>
         ownMessageIds s1 = {7})"
  using relayQuery_gated_on_connectivity
          [of "deviceEnv True 7 NetworkError" "''q1''" "''hi''" "''assistant''" None "''devA''"
              None "mountState ''devB''"]
        relayQuery_gated_on_connectivity
          [of "deviceEnv False 7 NetworkError" "''q1''" "''hi''" "''assistant''" None "''devA''"
              None "mountState ''devB''"]
  by (auto simp: deviceEnv_def mountState_def plainText_def queryMessage_def)

section \<open>The dedup sets only grow\<close>

lemma storeChunk_dedup:
  "processedRelayQueries (fst (storeChunk h d c entry s)) = processedRelayQueries s \<and>
   rebroadcastedQueryIds (fst (storeChunk h d c entry s)) = rebroadcastedQueryIds s"
  by (simp add: storeChunk_def Let_def split: sum.splits)

lemma handleIncomingChunk_dedup:
  "processedRelayQueries (fst (handleIncomingChunk h now c s)) = processedRelayQueries s \<and>
   rebroadcastedQueryIds (fst (handleIncomingChunk h now c s)) = rebroadcastedQueryIds s"
  by (simp add: handleIncomingChunk_def Let_def storeChunk_dedup split: option.splits)

lemma tick_dedup:
  "processedRelayQueries (tick s) = processedRelayQueries s \<and>
   rebroadcastedQueryIds (tick s) = rebroadcastedQueryIds s"
  by (simp add: tick_def Let_def stopMasterBroadcastLoop_def)

lemma connectivityEffect_dedup:
  "processedRelayQueries (connectivityEffect b s) = processedRelayQueries s \<and>
   rebroadcastedQueryIds (connectivityEffect b s) = rebroadcastedQueryIds s"
  by (simp add: connectivityEffect_def Let_def stopMasterBroadcastLoop_def)

lemma broadcastMessage_dedup:
  "broadcastMessage f m s = Inr s1 \<Longrightarrow>
   processedRelayQueries s1 = processedRelayQueries s \<and>
   rebroadcastedQueryIds s1 = rebroadcastedQueryIds s"
  using broadcastMessage_fields[of f m s "Inr s1"] by auto

lemma handleRelayMessage_dedup:
  "processedRelayQueries s \<subseteq> processedRelayQueries (handleRelayMessage e m s) \<and>
   rebroadcastedQueryIds s \<subseteq> rebroadcastedQueryIds (handleRelayMessage e m s)"
proof (cases "rm_type m")
  case RELAY_QUERY
  then show ?thesis
    by (auto simp: handleRelayMessage_def Let_def relayResponse_def
        split: sum.splits fetch_outcome.splits dest!: broadcastMessage_dedup)
next
  case RELAY_RESPONSE
  then show ?thesis
    by (auto simp: handleRelayMessage_def Let_def chatRelayResponse_def
        split: sum.splits option.splits dest!: broadcastMessage_dedup)
qed

lemma step_dedup:
  "processedRelayQueries s \<subseteq> processedRelayQueries (step ev s) \<and>
   rebroadcastedQueryIds s \<subseteq> rebroadcastedQueryIds (step ev s)"
proof (cases ev)
  case Tick
  then show ?thesis by (simp add: tick_dedup)
next
  case (Incoming h now c)
  then show ?thesis by (simp add: handleIncomingChunk_dedup)
next
  case (Relay e m)
  then show ?thesis using handleRelayMessage_dedup by simp
next
  case (Connectivity b)
  then show ?thesis by (simp add: connectivityEffect_dedup)
next
  case (Broadcast f m)
  then show ?thesis by (auto split: sum.splits dest!: broadcastMessage_dedup)
next
  case (Query e qid qt ty loc dev sos)
  then show ?thesis
    by (auto simp: relayQuery_def split: sum.splits if_splits dest!: broadcastMessage_dedup)
qed

lemma run_dedup:
  "processedRelayQueries s \<subseteq> processedRelayQueries (run evs s) \<and>
   rebroadcastedQueryIds s \<subseteq> rebroadcastedQueryIds (run evs s)"
proof (induction evs arbitrary: s)
  case Nil
  then show ?case by simp
next
  case (Cons ev evs)
  show ?case using Cons.IH[of "step ev s"] step_dedup[of s ev] by auto
qed

lemma query_dropped:
  "rm_type m = RELAY_QUERY \<Longrightarrow>
   query_id m \<in> processedRelayQueries s \<or> query_id m \<in> rebroadcastedQueryIds s \<Longrightarrow>
   handleRelayMessage e m s = s"
  by (auto simp: handleRelayMessage_def)


section \<open>Single-shot relay of a query\<close>

text \<open>
  Claim C2. Offline, the first receipt of a query whose id is in neither
  \<open>processedRelayQueries\<close> nor \<open>rebroadcastedQueryIds\<close> adds the id to
  \<open>rebroadcastedQueryIds\<close>, leaves \<open>processedRelayQueries\<close> alone and makes exactly one
  \<open>Map.set\<close> on the broadcast queue, of the encoded query under the generated id.
  After that, whatever the device does in between, every receipt of a query with the
  same id returns the state unchanged.
\<close>

theorem query_rebroadcast_once:
  assumes "rm_type m = RELAY_QUERY" and "\<not> hasInternet e"
    and "query_id m \<notin> processedRelayQueries s" and "query_id m \<notin> rebroadcastedQueryIds s"
  shows "rebroadcastedQueryIds (handleRelayMessage e m s)
           = insert (query_id m) (rebroadcastedQueryIds s) \<and>
         processedRelayQueries (handleRelayMessage e m s) = processedRelayQueries s \<and>
         broadcastQueue (handleRelayMessage e m s)
           = AList.update (freshId e) (encodeMessageToChunks (stringify e m) False (freshId e))
               (broadcastQueue s) \<and>
         (\<forall>evs e' m'. rm_type m' = RELAY_QUERY \<and> query_id m' = query_id m \<longrightarrow>
            handleRelayMessage e' m' (run evs (handleRelayMessage e m s))
              = run evs (handleRelayMessage e m s))"
proof -
  let ?s1 = "s\<lparr>rebroadcastedQueryIds := insert (query_id m) (rebroadcastedQueryIds s)\<rparr>"
  let ?s2 = "if truthy (original_device m)
             then ?s1\<lparr>querySenderMap := (querySenderMap ?s1)(query_id m \<mapsto> the (original_device m))\<rparr>
             else ?s1"
  obtain s3 where b: "broadcastMessage (freshId e) (stringify e m) ?s2 = Inr s3"
    and q: "broadcastQueue s3 = AList.update (freshId e)
              (encodeMessageToChunks (stringify e m) False (freshId e)) (broadcastQueue ?s2)"
    and r: "rebroadcastedQueryIds s3 = rebroadcastedQueryIds ?s2"
    and p: "processedRelayQueries s3 = processedRelayQueries ?s2"
    using broadcastMessage_fields[OF refl, of "freshId e" "stringify e m" ?s2] by blast
  have h: "handleRelayMessage e m s = s3"
    using assms b by (simp add: handleRelayMessage_def Let_def)
  have in_r: "query_id m \<in> rebroadcastedQueryIds s3" using r by simp
  then have later: "query_id m \<in> rebroadcastedQueryIds (run evs s3)" for evs
    using run_dedup[of s3 evs] by auto
  have "rebroadcastedQueryIds s3 = insert (query_id m) (rebroadcastedQueryIds s)" using r by simp
  moreover have "processedRelayQueries s3 = processedRelayQueries s" using p by simp
  moreover have "broadcastQueue s3 = AList.update (freshId e)
       (encodeMessageToChunks (stringify e m) False (freshId e)) (broadcastQueue s)" using q by simp
  ultimately show ?thesis unfolding h using later query_dropped by metis
qed


theorem query_rebroadcast_once_witness:
  "rm_type (queryMessage ''q1'' ''hi'' ''assistant'' None ''devA'' None) = RELAY_QUERY \<and>
   \<not> hasInternet (deviceEnv False 7 NetworkError) \<and>
   ''q1'' \<notin> processedRelayQueries (mountState ''devB'') \<and>
   ''q1'' \<notin> rebroadcastedQueryIds (mountState ''devB'') \<and>
   rebroadcastedQueryIds
     (handleRelayMessage (deviceEnv False 7 NetworkError)
        (queryMessage ''q1'' ''hi'' ''assistant'' None ''devA'' None) (mountState ''devB''))
     = {''q1''} \<and>
   broadcastQueue
     (handleRelayMessage (deviceEnv False 7 NetworkError)
        (queryMessage ''q1'' ''hi'' ''assistant'' None ''devA'' None) (mountState ''devB''))
     = [(7, encodeMessageToChunks ''Q q1'' False 7)] \<and>
   handleRelayMessage (deviceEnv False 8 NetworkError)
     (queryMessage ''q1'' ''hi'' ''assistant'' None ''devA'' None)
     (run [Tick]
        (handleRelayMessage (deviceEnv False 7 NetworkError)
           (queryMessage ''q1'' ''hi'' ''assistant'' None ''devA'' None) (mountState ''devB'')))
     = run [Tick]
        (handleRelayMessage (deviceEnv False 7 NetworkError)
           (queryMessage ''q1'' ''hi'' ''assistant'' None ''devA'' None) (mountState ''devB''))"
proof -
  let ?m = "queryMessage ''q1'' ''hi'' ''assistant'' None ''devA'' None"
  let ?e = "deviceEnv False 7 NetworkError"
  let ?s = "mountState ''devB''"
  have h1: "rm_type ?m = RELAY_QUERY" by (simp add: queryMessage_def)
  have h2: "\<not> hasInternet ?e" by (simp add: deviceEnv_def)
  have h3: "query_id ?m \<notin> processedRelayQueries ?s" by (simp add: mountState_def)
  have h4: "query_id ?m \<notin> rebroadcastedQueryIds ?s" by (simp add: mountState_def)
  note T = query_rebroadcast_once[OF h1 h2 h3 h4]
  have q: "query_id ?m = ''q1''" by (simp add: queryMessage_def)
  have a: "rebroadcastedQueryIds (handleRelayMessage ?e ?m ?s) = {''q1''}"
    using T by (simp add: q mountState_def)
  have b: "broadcastQueue (handleRelayMessage ?e ?m ?s) = [(7, encodeMessageToChunks ''Q q1'' False 7)]"
    using T by (simp add: q mountState_def deviceEnv_def plainText_def h1)
  have c: "handleRelayMessage (deviceEnv False 8 NetworkError) ?m (run [Tick] (handleRelayMessage ?e ?m ?s))
        = run [Tick] (handleRelayMessage ?e ?m ?s)"
    using T h1 by blast
  show ?thesis using h1 h2 h3 h4 a b c by (simp add: q)
qed

section \<open>A backend failure does not fall back to the relay path\<close>

text \<open>
  Claim C8. Online, when the backend call for a new query fails (the fetch rejects, the
  status is not OK, the body does not parse), the only change of state is that the id is
  in \<open>processedRelayQueries\<close>: \<open>rebroadcastedQueryIds\<close> and the broadcast queue are what
  they were. After that, whatever the device does in between, every receipt of a query
  with the same id is dropped.
\<close>

theorem backend_failure_stays_online_path:
  assumes "rm_type m = RELAY_QUERY" and "hasInternet e"
    and "query_id m \<notin> processedRelayQueries s" and "query_id m \<notin> rebroadcastedQueryIds s"
    and "backendFailed (fetchOutcome e)"
  shows "handleRelayMessage e m s =
           s\<lparr>processedRelayQueries := insert (query_id m) (processedRelayQueries s)\<rparr> \<and>
         (\<forall>evs e' m'. rm_type m' = RELAY_QUERY \<and> query_id m' = query_id m \<longrightarrow>
            handleRelayMessage e' m' (run evs (handleRelayMessage e m s))
              = run evs (handleRelayMessage e m s))"
proof -
  have first: "handleRelayMessage e m s =
           s\<lparr>processedRelayQueries := insert (query_id m) (processedRelayQueries s)\<rparr>"
    using assms by (simp add: handleRelayMessage_def backendFailed_def Let_def split: fetch_outcome.splits)
  have "query_id m \<in> processedRelayQueries (handleRelayMessage e m s)"
    by (simp add: first)
  then have later: "query_id m \<in> processedRelayQueries (run evs (handleRelayMessage e m s))" for evs
    using run_dedup[of "handleRelayMessage e m s" evs] by auto
  show ?thesis using first later query_dropped by metis
qed

theorem backend_failure_stays_online_path_witness:
  "rm_type (queryMessage ''q1'' ''hi'' ''assistant'' None ''devA'' None) = RELAY_QUERY \<and>
   hasInternet (deviceEnv True 7 (HttpError 500)) \<and>
   ''q1'' \<notin> processedRelayQueries (mountState ''devB'') \<and>
   ''q1'' \<notin> rebroadcastedQueryIds (mountState ''devB'') \<and>
   backendFailed (fetchOutcome (deviceEnv True 7 (HttpError 500))) \<and>
   handleRelayMessage (deviceEnv True 7 (HttpError 500))
        (queryMessage ''q1'' ''hi'' ''assistant'' None ''devA'' None) (mountState ''devB'')
     = (mountState ''devB'')\<lparr>processedRelayQueries := {''q1''}\<rparr> \<and>
   handleRelayMessage (deviceEnv False 8 NetworkError)
     (queryMessage ''q1'' ''hi'' ''assistant'' None ''devA'' None)
     (run [Connectivity False]
        (handleRelayMessage (deviceEnv True 7 (HttpError 500))
           (queryMessage ''q1'' ''hi'' ''assistant'' None ''devA'' None) (mountState ''devB'')))
     = run [Connectivity False]
        (handleRelayMessage (deviceEnv True 7 (HttpError 500))
           (queryMessage ''q1'' ''hi'' ''assistant'' None ''devA'' None) (mountState ''devB''))"
proof -
  let ?m = "queryMessage ''q1'' ''hi'' ''assistant'' None ''devA'' None"
  let ?e = "deviceEnv True 7 (HttpError 500)"
  let ?s = "mountState ''devB''"
  have h1: "rm_type ?m = RELAY_QUERY" by (simp add: queryMessage_def)
  have h2: "hasInternet ?e" by (simp add: deviceEnv_def)
  have h3: "query_id ?m \<notin> processedRelayQueries ?s" by (simp add: mountState_def)
  have h4: "query_id ?m \<notin> rebroadcastedQueryIds ?s" by (simp add: mountState_def)
  have h5: "backendFailed (fetchOutcome ?e)" by (simp add: deviceEnv_def backendFailed_def)
  note T = backend_failure_stays_online_path[OF h1 h2 h3 h4 h5]
  have q: "query_id ?m = ''q1''" by (simp add: queryMessage_def)
  have a: "handleRelayMessage ?e ?m ?s = ?s\<lparr>processedRelayQueries := {''q1''}\<rparr>"
    using T by (simp add: q mountState_def)
  have c: "handleRelayMessage (deviceEnv False 8 NetworkError) ?m (run [Connectivity False] (handleRelayMessage ?e ?m ?s))
        = run [Connectivity False] (handleRelayMessage ?e ?m ?s)"
    using T h1 by blast
  show ?thesis using h1 h2 h3 h4 h5 a c by (simp add: q)
qed


section \<open>The connectivity effect keeps only acknowledgements\<close>

lemma update_append: "k \<notin> fst ` set al \<Longrightarrow> AList.update k v al = al @ [(k, v)]"
  by (induction al) auto

lemma foldl_update_distinct:
  "distinct (map fst (acc @ xs)) \<Longrightarrow>
   foldl (\<lambda>q entry. AList.update (fst entry) (snd entry) q) acc xs = acc @ xs"
proof (induction xs arbitrary: acc)
  case Nil
  then show ?case by simp
next
  case (Cons x xs)
  have "fst x \<notin> fst ` set acc" using Cons.prems by auto
  then have u: "AList.update (fst x) (snd x) acc = acc @ [x]"
    by (simp add: update_append)
  have "distinct (map fst ((acc @ [x]) @ xs))" using Cons.prems by simp
  from Cons.IH[OF this] show ?case by (simp add: u)
qed

lemma connectivityEffect_queue:
  assumes "distinct (map fst (broadcastQueue s))"
  shows "broadcastQueue (connectivityEffect True s) = filter (keepOnline s) (broadcastQueue s)"
proof -
  have "distinct (map fst ([] @ filter (keepOnline s) (broadcastQueue s)))"
    using assms by (simp add: distinct_map_filter)
  from foldl_update_distinct[OF this] show ?thesis
    by (simp add: connectivityEffect_def Let_def stopMasterBroadcastLoop_def)
qed


text \<open>
  Claim C10. When the effect runs with connectivity, the queue keeps, in their order,
  exactly the entries whose stored message state has the ack flag set, and the loop is
  stopped if nothing is left. A relay response is queued by \<open>broadcastMessage\<close>, which
  stores its state with the ack flag cleared, so the effect removes it.
\<close>

theorem online_keeps_only_ack_entries:
  assumes "distinct (map fst (broadcastQueue s))"
  shows "broadcastQueue (connectivityEffect True s)
           = filter (\<lambda>entry. \<exists>st. masterState s (fst entry) = Some st \<and> isAck st)
               (broadcastQueue s) \<and>
         (broadcastQueue (connectivityEffect True s) = [] \<longrightarrow>
            \<not> masterInterval (connectivityEffect True s)) \<and>
         (\<forall>e qid resp. \<exists>s1 st. relayResponse e qid resp s = Inr s1 \<and>
            masterState s1 (freshId e) = Some st \<and> \<not> isAck st \<and>
            freshId e \<in> fst ` set (broadcastQueue s1) \<and>
            freshId e \<notin> fst ` set (broadcastQueue (connectivityEffect True s1)))"
proof -
  have k: "keepOnline s = (\<lambda>entry. \<exists>st. masterState s (fst entry) = Some st \<and> isAck st)" for s
    by (auto simp: keepOnline_def fun_eq_iff split: option.splits)
  have a: "broadcastQueue (connectivityEffect True s)
           = filter (\<lambda>entry. \<exists>st. masterState s (fst entry) = Some st \<and> isAck st)
               (broadcastQueue s)"
    using connectivityEffect_queue[OF assms] by (simp add: k)
  have b: "broadcastQueue (connectivityEffect True s) = [] \<longrightarrow>
            \<not> masterInterval (connectivityEffect True s)"
    by (auto simp: connectivityEffect_def Let_def stopMasterBroadcastLoop_def)
  have c: "\<exists>s1 st. relayResponse e qid resp s = Inr s1 \<and>
            masterState s1 (freshId e) = Some st \<and> \<not> isAck st \<and>
            freshId e \<in> fst ` set (broadcastQueue s1) \<and>
            freshId e \<notin> fst ` set (broadcastQueue (connectivityEffect True s1))"
    for e qid resp
  proof -
    let ?txt = "stringify e (responseMessage qid resp)"
    let ?cs = "encodeMessageToChunks ?txt False (freshId e)"
    obtain s1 where r: "relayResponse e qid resp s = Inr s1"
      and f: "broadcastQueue s1 = AList.update (freshId e) ?cs (broadcastQueue s)"
        "masterState s1 = (masterState s)(freshId e \<mapsto> newState (freshId e) ?cs ?txt)"
      using broadcastMessage_fields[OF refl, of "freshId e" ?txt s]
      by (auto simp: relayResponse_def)
    have d: "distinct (map fst (broadcastQueue s1))"
      using assms by (simp add: f distinct_update)
    have n: "\<not> isAck (newState (freshId e) ?cs ?txt)"
      by (simp add: newState_def)
    have i: "freshId e \<in> fst ` set (broadcastQueue s1)"
      by (simp add: f dom_update)
    have "broadcastQueue (connectivityEffect True s1) = filter (keepOnline s1) (broadcastQueue s1)"
      using connectivityEffect_queue[OF d] .
    then have "freshId e \<notin> fst ` set (broadcastQueue (connectivityEffect True s1))"
      using n by (auto simp: keepOnline_def f)
    then show ?thesis using r n i by (simp add: f)
  qed
  show ?thesis using a b c by blast
qed

section \<open>Delivery of a relay response\<close>

lemma find_None_filter: "find P xs = None \<Longrightarrow> filter P xs = []"
  by (induction xs) (auto split: if_splits)

lemma chatRelayResponse_purges:
  "\<forall>q \<in> set (pendingQueries (chatRelayResponse e qid resp s)). queryId q \<noteq> qid"
  by (auto simp: chatRelayResponse_def find_None_iff split: option.splits)

lemma chatRelayResponse_noop:
  "\<forall>q \<in> set (pendingQueries s). queryId q \<noteq> qid \<Longrightarrow> chatRelayResponse e qid resp s = s"
proof -
  assume "\<forall>q \<in> set (pendingQueries s). queryId q \<noteq> qid"
  then have "find (\<lambda>q. queryId q = qid) (pendingQueries s) = None"
    by (simp add: find_None_iff)
  then show ?thesis by (simp add: chatRelayResponse_def)
qed

lemma response_chat_fields:
  assumes "rm_type m = RELAY_RESPONSE"
  shows "pendingQueries (handleRelayMessage e m s) =
           pendingQueries (if relayResponseCallback s \<and> truthy (response m)
              then chatRelayResponse e (query_id m) (the (response m)) s else s) \<and>
         messages (handleRelayMessage e m s) =
           messages (if relayResponseCallback s \<and> truthy (response m)
              then chatRelayResponse e (query_id m) (the (response m)) s else s) \<and>
         callbackLog (handleRelayMessage e m s) =
           (if relayResponseCallback s \<and> truthy (response m)
            then callbackLog s @ [(query_id m, the (response m))] else callbackLog s) \<and>
         relayResponseCallback (handleRelayMessage e m s) = relayResponseCallback s"
proof -
  have c: "pendingQueries (chatRelayResponse e q r (s\<lparr>callbackLog := l\<rparr>)) = pendingQueries (chatRelayResponse e q r s)
     \<and> messages (chatRelayResponse e q r (s\<lparr>callbackLog := l\<rparr>)) = messages (chatRelayResponse e q r s)
     \<and> callbackLog (chatRelayResponse e q r (s\<lparr>callbackLog := l\<rparr>)) = l
     \<and> relayResponseCallback (chatRelayResponse e q r (s\<lparr>callbackLog := l\<rparr>)) = relayResponseCallback s" for q r l
    by (simp add: chatRelayResponse_def Let_def split: option.splits)
  show ?thesis
    using assms c
    by (auto simp: handleRelayMessage_def Let_def
        split: sum.splits dest!: broadcastMessage_fields)
qed


text \<open>
  Claim C3, as the code has it. A response with a non-empty text invokes the registered
  callback on every receipt, whether a query is pending or not. The callback delivers
  the response, as one assistant message that replaces the placeholder, only when a
  pending query with that id exists, and then removes every pending entry with that id.
  A later response with the same id invokes the callback again, and the callback then
  changes neither the messages nor the pending queries.
\<close>

theorem response_delivered_once_per_pending_query:
  assumes "rm_type m = RELAY_RESPONSE" and "relayResponseCallback s" and "truthy (response m)"
  shows "callbackLog (handleRelayMessage e m s)
           = callbackLog s @ [(query_id m, the (response m))] \<and>
         (\<forall>p. find (\<lambda>q. queryId q = query_id m) (pendingQueries s) = Some p \<longrightarrow>
            messages (handleRelayMessage e m s)
              = \<lparr>cm_id = randomKey e, cm_text = responseText e (the (response m)), cm_user = 2\<rparr>
                  # filter (\<lambda>msg. cm_id msg \<noteq> messageId p) (messages s) \<and>
            pendingQueries (handleRelayMessage e m s)
              = filter (\<lambda>q. queryId q \<noteq> query_id m) (pendingQueries s)) \<and>
         (find (\<lambda>q. queryId q = query_id m) (pendingQueries s) = None \<longrightarrow>
            messages (handleRelayMessage e m s) = messages s \<and>
            pendingQueries (handleRelayMessage e m s) = pendingQueries s) \<and>
         (\<forall>q \<in> set (pendingQueries (handleRelayMessage e m s)). queryId q \<noteq> query_id m) \<and>
         (\<forall>e' m'. rm_type m' = RELAY_RESPONSE \<and> query_id m' = query_id m \<longrightarrow>
            messages (handleRelayMessage e' m' (handleRelayMessage e m s))
              = messages (handleRelayMessage e m s) \<and>
            pendingQueries (handleRelayMessage e' m' (handleRelayMessage e m s))
              = pendingQueries (handleRelayMessage e m s))"
proof -
  let ?s1 = "handleRelayMessage e m s"
  note F = response_chat_fields[OF assms(1), of e s]
  have log: "callbackLog ?s1 = callbackLog s @ [(query_id m, the (response m))]"
    using F assms by simp
  have pend: "pendingQueries ?s1 = pendingQueries (chatRelayResponse e (query_id m) (the (response m)) s)"
    and msgs: "messages ?s1 = messages (chatRelayResponse e (query_id m) (the (response m)) s)"
    using F assms by simp_all
  have some: "messages ?s1 = \<lparr>cm_id = randomKey e, cm_text = responseText e (the (response m)), cm_user = 2\<rparr>
                  # filter (\<lambda>msg. cm_id msg \<noteq> messageId p) (messages s) \<and>
            pendingQueries ?s1 = filter (\<lambda>q. queryId q \<noteq> query_id m) (pendingQueries s)"
    if "find (\<lambda>q. queryId q = query_id m) (pendingQueries s) = Some p" for p
    using that by (simp add: pend msgs chatRelayResponse_def Let_def)
  have none: "find (\<lambda>q. queryId q = query_id m) (pendingQueries s) = None \<longrightarrow>
            messages ?s1 = messages s \<and> pendingQueries ?s1 = pendingQueries s"
    by (simp add: pend msgs chatRelayResponse_def)
  have purged: "\<forall>q \<in> set (pendingQueries ?s1). queryId q \<noteq> query_id m"
    unfolding pend using chatRelayResponse_purges by blast
  have dup: "messages (handleRelayMessage e' m' ?s1) = messages ?s1 \<and>
             pendingQueries (handleRelayMessage e' m' ?s1) = pendingQueries ?s1"
    if "rm_type m' = RELAY_RESPONSE" "query_id m' = query_id m" for e' m'
  proof -
    have "chatRelayResponse e' (query_id m') r ?s1 = ?s1" for r
      using chatRelayResponse_noop purged that(2) by metis
    then show ?thesis using response_chat_fields[OF that(1), of e' ?s1] by simp
  qed
  show ?thesis using log some none purged dup by blast
qed

section \<open>Fragments for a completed message\<close>

lemma utf8Decode_count:
  assumes "\<forall>b \<in> set replacement. \<not> R b"
  shows "length (filter R (utf8Decode pending needed lower upper bs))
           \<le> length pending + length bs"
proof (induction bs arbitrary: pending needed lower upper)
  case Nil
  then show ?case using assms by (simp add: filter_empty_conv[THEN iffD2])
next
  case (Cons b bs)
  have rep: "filter R replacement = []" using assms by (simp add: filter_empty_conv)
  have f: "length (filter R xs) \<le> length xs" for xs by simp
  note ih0 = Cons.IH[of "[]" 0 "0x80" "0xBF"]
  note ih1 = Cons.IH[of "[b]" 1 "0x80" "0xBF"]
  note ih2 = Cons.IH[of "[b]" 2 "lowerBoundary b" "upperBoundary b"]
  note ih3 = Cons.IH[of "[b]" 3 "lowerBoundary b" "upperBoundary b"]
  note ihm = Cons.IH[of "pending @ [b]" "needed - 1" "0x80" "0xBF"]
  show ?case
  proof (cases "needed \<noteq> 0 \<and> lower \<le> b \<and> b \<le> upper")
    case True
    show ?thesis
    proof (cases "needed = 1")
      case True
      have "length (filter R (pending @ [b] @ utf8Decode [] 0 0x80 0xBF bs))
          \<le> length pending + 1 + length bs"
        using ih0 f[of pending] by (simp del: length_filter_le)
      then show ?thesis using True \<open>needed \<noteq> 0 \<and> lower \<le> b \<and> b \<le> upper\<close> by simp
    next
      case False
      then show ?thesis using True ihm by simp
    qed
  next
    case False
    define L where "L =
        (if b \<le> 0x7F then b # utf8Decode [] 0 0x80 0xBF bs
         else if 0xC2 \<le> b \<and> b \<le> 0xDF then utf8Decode [b] 1 0x80 0xBF bs
         else if 0xE0 \<le> b \<and> b \<le> 0xEF
           then utf8Decode [b] 2 (lowerBoundary b) (upperBoundary b) bs
         else if 0xF0 \<le> b \<and> b \<le> 0xF4
           then utf8Decode [b] 3 (lowerBoundary b) (upperBoundary b) bs
         else replacement @ utf8Decode [] 0 0x80 0xBF bs)"
    have lead: "length (filter R L) \<le> 1 + length bs"
      unfolding L_def using ih0 ih1 ih2 ih3 by (simp add: rep)
    have "utf8Decode pending needed lower upper (b # bs)
        = (if needed \<noteq> 0 then replacement else []) @ L"
      unfolding L_def using False by (simp only: utf8Decode.simps if_False)
    then have "length (filter R (utf8Decode pending needed lower upper (b # bs)))
        = length (filter R L)"
      by (simp add: rep)
    then show ?thesis using lead by simp
  qed
qed

lemma length_trim: "length (trim t) \<le> length t"
proof -
  have "length (dropWhile P xs) \<le> length xs" for P and xs :: string
    by (induction xs) auto
  then have "length (dropWhile isWhiteSpace (rev (dropWhile isWhiteSpace t)))
      \<le> length (rev (dropWhile isWhiteSpace t))"
    and "length (dropWhile isWhiteSpace t) \<le> length t" by blast+
  then show ?thesis by (simp add: trim_def)
qed

lemma filter_dropWhile_le: "length (filter Q (dropWhile P xs)) \<le> length (filter Q xs)"
  by (induction xs) auto

lemma filter_trim_le: "length (filter Q (trim t)) \<le> length (filter Q t)"
proof -
  have "length (filter Q (trim t))
      = length (filter Q (dropWhile isWhiteSpace (rev (dropWhile isWhiteSpace t))))"
    by (simp add: trim_def rev_filter[symmetric])
  also have "\<dots> \<le> length (filter Q (rev (dropWhile isWhiteSpace t)))"
    by (rule filter_dropWhile_le)
  also have "\<dots> = length (filter Q (dropWhile isWhiteSpace t))"
    by (simp add: rev_filter[symmetric])
  also have "\<dots> \<le> length (filter Q t)" by (rule filter_dropWhile_le)
  finally show ?thesis .
qed

lemma filter_take_le: "length (filter Q (take n xs)) \<le> length (filter Q xs)"
proof -
  have "length (filter Q xs) = length (filter Q (take n xs @ drop n xs))" by simp
  then show ?thesis by (simp del: append_take_drop_id)
qed

lemma replacement_not_heartbeat:
  "\<forall>b \<in> set replacement. \<not> (char_of (unat b) \<in> set ''HEARTBEAT:'')"
  by code_simp

lemma not_heartbeat:
  assumes "length (payload c) = DATA_PER_CHUNK"
  shows "\<not> startsWith (trim (textDecode (payload c))) ''HEARTBEAT:''"
proof
  let ?Q = "\<lambda>ch. ch \<in> set ''HEARTBEAT:''"
  let ?t = "textDecode (payload c)"
  let ?bs = "if take 3 (payload c) = utf8BOM then drop 3 (payload c) else payload c"
  assume "startsWith (trim ?t) ''HEARTBEAT:''"
  then have tk: "take (length ''HEARTBEAT:'') (trim ?t) = ''HEARTBEAT:''"
    by (simp only: startsWith_def)
  have "filter ?Q ''HEARTBEAT:'' = ''HEARTBEAT:''" by (rule filter_True) simp
  then have "length (filter ?Q (take (length ''HEARTBEAT:'') (trim ?t))) = length ''HEARTBEAT:''"
    by (simp only: tk)
  then have "length ''HEARTBEAT:'' \<le> length (filter ?Q (trim ?t))"
    using filter_take_le[of ?Q "length ''HEARTBEAT:''" "trim ?t"] by (simp only:)
  then have "10 \<le> length (filter ?Q ?t)"
    using filter_trim_le[of ?Q ?t] by simp
  moreover have "length (filter ?Q ?t)
      = length (filter (\<lambda>b. char_of (unat b) \<in> set ''HEARTBEAT:'') (utf8Decode [] 0 0x80 0xBF ?bs))"
    by (simp only: textDecode_def filter_map length_map comp_def)
  moreover have "\<dots> \<le> length ([] :: byte list) + length ?bs"
    by (rule utf8Decode_count[OF replacement_not_heartbeat])
  moreover have "length ?bs \<le> 6" using assms by (simp add: DATA_PER_CHUNK_def)
  ultimately show False by simp
qed

lemma storeChunk_complete:
  "isComplete entry \<Longrightarrow>
   storeChunk h d c entry s = (s\<lparr>masterState := (masterState s)(d_id d \<mapsto> entry)\<rparr>, NoDispatch)"
  by (simp add: storeChunk_def)


text \<open>
  Claim C4, as the code has it. A fragment for an id whose entry is complete leaves the
  whole reassembly map unchanged and hands nothing on, unless the stored entry is a
  request and the fragment carries the ack flag: that case is the transition of
  lines 162-170.
\<close>

theorem complete_entry_dropped:
  assumes "masterState s (hdr_id c) = Some entry" and "isComplete entry"
    and "isAck entry \<or> \<not> hdr_ack c"
  shows "masterState (fst (handleIncomingChunk online now c s)) = masterState s \<and>
         snd (handleIncomingChunk online now c s) = NoDispatch"
proof (cases "decodeSingleChunk c")
  case None
  then show ?thesis by (simp add: handleIncomingChunk_def)
next
  case (Some d)
  then have d: "d_id d = hdr_id c" "d_isAck d = hdr_ack c"
    by (auto simp: decodeSingleChunk_def split: if_splits)
  have t: "(masterState s)(hdr_id c \<mapsto> entry) = masterState s"
    using assms(1) by (simp add: fun_upd_idem)
  show ?thesis
    using assms Some d t
    by (auto simp: handleIncomingChunk_def Let_def storeChunk_complete)
qed


section \<open>A request entry becomes the entry of its reply\<close>

text \<open>
  For an id that is not one of the device's own: when an ack fragment arrives and the
  stored entry is a request, the entry is reset by \<open>ackTransition\<close>: no fragments, no
  reconstructed message, the total of the incoming fragment, not complete, role ack,
  same id. No entry is allocated: the keys of the reassembly map are the same, and the
  entry under the id is the reset one with the incoming fragment stored as its only
  fragment (which completes it exactly when the declared total is 1).
\<close>

lemma ack_transition_in_place:
  assumes "length (payload c) = DATA_PER_CHUNK" and "hdr_ack c"
    and "masterState s (hdr_id c) = Some entry" and "\<not> isAck entry"
    and "hdr_id c \<notin> ownMessageIds s"
  shows "chunks (ackTransition entry (hdr_total c)) = [] \<and>
         fullMessage (ackTransition entry (hdr_total c)) = [] \<and>
         totalChunks (ackTransition entry (hdr_total c)) = hdr_total c \<and>
         \<not> isComplete (ackTransition entry (hdr_total c)) \<and>
         isAck (ackTransition entry (hdr_total c)) \<and>
         ms_id (ackTransition entry (hdr_total c)) = ms_id entry \<and>
         (\<exists>entry'. masterState (fst (handleIncomingChunk online now c s)) (hdr_id c) = Some entry' \<and>
            ms_id entry' = ms_id entry \<and> isAck entry' \<and> totalChunks entry' = hdr_total c \<and>
            chunks entry' = [(hdr_seq c, c)] \<and>
            (isComplete entry' \<longleftrightarrow> hdr_total c = 1)) \<and>
         dom (masterState (fst (handleIncomingChunk online now c s))) = dom (masterState s)"
proof -
  let ?d = "\<lparr>d_id = hdr_id c, d_totalChunks = hdr_total c, d_chunkNumber = hdr_seq c,
             d_isAck = hdr_ack c, decodedData = textDecode (payload c)\<rparr>"
  let ?s1 = "if hdr_id c \<notin> receivedMessageIds s
             then s\<lparr>receivedMessageIds := insert (hdr_id c) (receivedMessageIds s),
                    peerActivity := (peerActivity s)(hdr_id c \<mapsto> now)\<rparr>
             else s"
  have dec: "decodeSingleChunk c = Some ?d" using assms(1) by (simp add: decodeSingleChunk_def)
  have h: "handleIncomingChunk online now c s
             = storeChunk online ?d c (ackTransition entry (hdr_total c)) ?s1"
    using assms not_heartbeat[OF assms(1)]
    by (simp add: handleIncomingChunk_def dec Let_def)
  have ms: "masterState ?s1 = masterState s" by simp
  have st: "\<exists>entry'. masterState (fst (storeChunk online ?d c (ackTransition entry (hdr_total c)) ?s1)) (hdr_id c) = Some entry' \<and>
            ms_id entry' = ms_id entry \<and> isAck entry' \<and> totalChunks entry' = hdr_total c \<and>
            chunks entry' = [(hdr_seq c, c)] \<and>
            (isComplete entry' \<longleftrightarrow> hdr_total c = 1)"
    unfolding storeChunk_def Let_def ms
    by (auto simp: ackTransition_def split: sum.splits)
  have dm: "dom (masterState (fst (storeChunk online ?d c (ackTransition entry (hdr_total c)) ?s1)))
        = dom (masterState s)"
    unfolding storeChunk_def Let_def ms using assms(3)
    by (auto simp: ackTransition_def split: sum.splits)
  show ?thesis unfolding h using st dm by (simp add: ackTransition_def)
qed


section \<open>One traversal of the queue sends every chunk\<close>

lemma concat_split_nth:
  assumes "i < length xs"
  shows "concat xs = concat (take i xs) @ xs ! i @ concat (drop (Suc i) xs)"
proof -
  have "xs = take i xs @ xs ! i # drop (Suc i) xs"
    using assms by (simp add: id_take_nth_drop)
  then have "concat xs = concat (take i xs @ xs ! i # drop (Suc i) xs)" by simp
  then show ?thesis by simp
qed

lemma concat_nth_pos:
  assumes "i < length xs" and "j < length (xs ! i)"
  shows "length (concat (take i xs)) + j < length (concat xs) \<and>
         concat xs ! (length (concat (take i xs)) + j) = xs ! i ! j"
proof -
  note s = concat_split_nth[OF assms(1)]
  have "length (concat xs) = length (concat (take i xs)) + length (xs ! i)
          + length (concat (drop (Suc i) xs))"
    by (subst s) simp
  moreover have "concat xs ! (length (concat (take i xs)) + j) = xs ! i ! j"
    by (subst s) (simp add: nth_append assms(2))
  ultimately show ?thesis using assms(2) by simp
qed

lemma flat_take_Suc:
  "i < length q \<Longrightarrow>
   length (flatQueue (take (Suc i) q)) = length (flatQueue (take i q)) + length (snd (q ! i))"
  by (simp add: flatQueue_def take_Suc_conv_app_nth)

lemma flat_pos:
  assumes "i < length q" and "j < length (snd (q ! i))"
  shows "length (flatQueue (take i q)) + j < length (flatQueue q) \<and>
         flatQueue q ! (length (flatQueue (take i q)) + j) = snd (q ! i) ! j"
  using concat_nth_pos[of i "map snd q" j] assms
  by (simp add: flatQueue_def take_map)

lemma tick_flat:
  assumes ne: "broadcastQueue s \<noteq> []"
    and full: "\<forall>entry \<in> set (broadcastQueue s). snd entry \<noteq> []"
  shows "broadcastQueue (tick s) = broadcastQueue s \<and>
         cursorPos (broadcastQueue s) (broadcastCursor s) < length (flatQueue (broadcastQueue s)) \<and>
         broadcastLog (tick s) = broadcastLog s @
           [flatQueue (broadcastQueue s) ! cursorPos (broadcastQueue s) (broadcastCursor s)] \<and>
         cursorPos (broadcastQueue s) (broadcastCursor (tick s))
           = Suc (cursorPos (broadcastQueue s) (broadcastCursor s))
               mod length (flatQueue (broadcastQueue s))"
proof -
  define q where "q = broadcastQueue s"
  define qi where "qi = (if fst (broadcastCursor s) \<ge> length q then 0 else fst (broadcastCursor s))"
  define cs where "cs = snd (q ! qi)"
  define ci where "ci = (if snd (broadcastCursor s) \<ge> length cs then 0 else snd (broadcastCursor s))"
  define T where "T = length (flatQueue q)"
  have qne: "q \<noteq> []" using ne by (simp add: q_def)
  have qi: "qi < length q" using qne by (auto simp: qi_def)
  have nonempty: "snd (q ! k) \<noteq> []" if "k < length q" for k
    using full that nth_mem[of k q] by (auto simp: q_def)
  have csne: "cs \<noteq> []" using nonempty[OF qi] by (simp add: cs_def)
  have ci: "ci < length cs" using csne by (auto simp: ci_def)
  have p: "cursorPos q (broadcastCursor s) = length (flatQueue (take qi q)) + ci"
    by (simp add: cursorPos_def Let_def qi_def ci_def cs_def)
  from flat_pos[OF qi, of ci] ci
  have pT: "length (flatQueue (take qi q)) + ci < T"
    and nth: "flatQueue q ! (length (flatQueue (take qi q)) + ci) = cs ! ci"
    by (simp_all add: cs_def T_def)
  have queue: "broadcastQueue (tick s) = q"
    using qne csne by (simp add: tick_def Let_def q_def qi_def cs_def)
  have log: "broadcastLog (tick s) = broadcastLog s @ [cs ! ci]"
    using qne csne
    by (simp add: tick_def Let_def q_def[symmetric] qi_def[symmetric] cs_def[symmetric]
        ci_def[symmetric])
  have cur: "broadcastCursor (tick s) =
       (if Suc ci \<ge> length cs then ((if Suc qi \<ge> length q then 0 else Suc qi), 0)
        else (qi, Suc ci))"
    using qne csne
    by (simp add: tick_def Let_def q_def[symmetric] qi_def[symmetric] cs_def[symmetric]
        ci_def[symmetric])
  have next_pos: "cursorPos q (broadcastCursor (tick s))
      = Suc (length (flatQueue (take qi q)) + ci) mod T"
  proof (cases "Suc ci \<ge> length cs")
    case False
    then have c: "broadcastCursor (tick s) = (qi, Suc ci)" using cur by simp
    have "cursorPos q (qi, Suc ci) = length (flatQueue (take qi q)) + Suc ci"
      using qi False by (simp add: cursorPos_def Let_def cs_def)
    moreover from flat_pos[OF qi, of "Suc ci"] False
    have "length (flatQueue (take qi q)) + Suc ci < T" by (simp add: cs_def T_def)
    ultimately show ?thesis by (simp add: c)
  next
    case True
    then have len: "length cs = Suc ci" using ci by simp
    show ?thesis
    proof (cases "Suc qi \<ge> length q")
      case True
      then have c: "broadcastCursor (tick s) = (0, 0)" using cur len by simp
      have "take (Suc qi) q = q" using True by simp
      then have "T = length (flatQueue (take qi q)) + length cs"
        using flat_take_Suc[OF qi] by (simp add: T_def cs_def)
      then have "Suc (length (flatQueue (take qi q)) + ci) mod T = 0" using len by simp
      moreover have "cursorPos q (0, 0) = 0"
        by (simp add: cursorPos_def Let_def flatQueue_def)
      ultimately show ?thesis by (simp add: c)
    next
      case False
      then have c: "broadcastCursor (tick s) = (Suc qi, 0)" using cur len by simp
      have sq: "Suc qi < length q" using False by simp
      have "cursorPos q (Suc qi, 0) = length (flatQueue (take (Suc qi) q))"
        using sq by (simp add: cursorPos_def Let_def)
      also have "\<dots> = length (flatQueue (take qi q)) + length cs"
        using flat_take_Suc[OF qi] by (simp add: cs_def)
      finally have e: "cursorPos q (Suc qi, 0) = Suc (length (flatQueue (take qi q)) + ci)"
        using len by simp
      from flat_pos[OF sq, of 0] nonempty[OF sq]
      have "length (flatQueue (take (Suc qi) q)) < T" by (simp add: T_def)
      then have "Suc (length (flatQueue (take qi q)) + ci) < T"
        using flat_take_Suc[OF qi] len by (simp add: cs_def)
      then show ?thesis using e by (simp add: c)
    qed
  qed
  show ?thesis
    using queue pT log nth next_pos p unfolding q_def[symmetric] T_def[symmetric] by simp
qed

lemma ticks_flat:
  assumes "broadcastQueue s \<noteq> []"
    and "\<forall>entry \<in> set (broadcastQueue s). snd entry \<noteq> []"
  shows "broadcastQueue (ticks n s) = broadcastQueue s \<and>
         broadcastLog (ticks n s) = broadcastLog s @
           map (\<lambda>k. flatQueue (broadcastQueue s) !
                  ((cursorPos (broadcastQueue s) (broadcastCursor s) + k)
                     mod length (flatQueue (broadcastQueue s)))) [0..<n]"
  using assms
proof (induction n arbitrary: s)
  case 0
  then show ?case by simp
next
  case (Suc n)
  let ?q = "broadcastQueue s"
  let ?T = "length (flatQueue ?q)"
  let ?p = "cursorPos ?q (broadcastCursor s)"
  note t = tick_flat[OF Suc.prems]
  have q: "broadcastQueue (tick s) = ?q" using t by simp
  have ih: "broadcastQueue (ticks n (tick s)) = ?q \<and>
         broadcastLog (ticks n (tick s)) = broadcastLog (tick s) @
           map (\<lambda>k. flatQueue ?q ! ((cursorPos ?q (broadcastCursor (tick s)) + k) mod ?T)) [0..<n]"
    using Suc.IH[of "tick s"] Suc.prems by (simp add: q)
  have p': "cursorPos ?q (broadcastCursor (tick s)) = Suc ?p mod ?T" using t by simp
  have shift: "(Suc ?p mod ?T + k) mod ?T = (?p + Suc k) mod ?T" for k
    by (simp add: mod_add_left_eq)
  have p0: "(?p + 0) mod ?T = ?p" using t by simp
  have "map (\<lambda>k. flatQueue ?q ! ((?p + k) mod ?T)) [0..<Suc n]
      = flatQueue ?q ! ?p # map (\<lambda>k. flatQueue ?q ! ((?p + Suc k) mod ?T)) [0..<n]"
    using p0 by (simp add: map_upt_Suc del: upt_Suc)
  then show ?case using ih t by (simp add: p' shift del: upt_Suc)
qed

lemma rotate_as_map:
  "map (\<lambda>k. xs ! ((p + k) mod length xs)) [0..<length xs] = rotate p xs"
  by (rule nth_equalityI) (simp_all add: nth_rotate)


text \<open>
  Claim C6. Let the queue be non-empty with no empty entry, and let T be the number of
  chunks in it. From any cursor, T ticks are one full traversal: the queue is unchanged
  and the frames sent are the chunks of the queue, entry by entry in queue order, each
  exactly once, starting at the cursor and wrapping around. So every entry has all of
  its chunks, at least one, sent in the traversal. And a tick that finds the queue empty
  stops the loop without sending.
\<close>

theorem full_traversal_sends_every_chunk:
  assumes "broadcastQueue s \<noteq> []"
    and "\<forall>entry \<in> set (broadcastQueue s). snd entry \<noteq> []"
  shows "broadcastQueue (ticks (length (flatQueue (broadcastQueue s))) s) = broadcastQueue s \<and>
         broadcastLog (ticks (length (flatQueue (broadcastQueue s))) s)
           = broadcastLog s @
               rotate (cursorPos (broadcastQueue s) (broadcastCursor s))
                 (flatQueue (broadcastQueue s)) \<and>
         (\<forall>entry \<in> set (broadcastQueue s).
            set (snd entry) \<noteq> {} \<and>
            set (snd entry) \<subseteq> set (drop (length (broadcastLog s))
               (broadcastLog (ticks (length (flatQueue (broadcastQueue s))) s)))) \<and>
         (\<forall>t. broadcastQueue t = [] \<longrightarrow>
            \<not> masterInterval (tick t) \<and> broadcastLog (tick t) = broadcastLog t)"
proof -
  let ?q = "broadcastQueue s"
  let ?T = "length (flatQueue ?q)"
  note n = ticks_flat[OF assms, of ?T]
  have log: "broadcastLog (ticks ?T s)
      = broadcastLog s @ rotate (cursorPos ?q (broadcastCursor s)) (flatQueue ?q)"
    using n by (simp add: rotate_as_map)
  have sent: "set (snd entry) \<noteq> {} \<and>
      set (snd entry) \<subseteq> set (drop (length (broadcastLog s)) (broadcastLog (ticks ?T s)))"
    if "entry \<in> set ?q" for entry
  proof -
    have "set (snd entry) \<subseteq> set (flatQueue ?q)" using that by (auto simp: flatQueue_def)
    then show ?thesis using assms(2) that by (simp add: log)
  qed
  have stop: "\<not> masterInterval (tick t) \<and> broadcastLog (tick t) = broadcastLog t"
    if "broadcastQueue t = []" for t
    using that by (simp add: tick_def stopMasterBroadcastLoop_def)
  show ?thesis using n log sent stop by blast
qed

section \<open>The scheduler does not consume the queue\<close>

lemma tick_keeps_nonempty:
  assumes "broadcastQueue s \<noteq> []"
    and "snd (broadcastQueue s ! (if fst (broadcastCursor s) \<ge> length (broadcastQueue s) then 0 else fst (broadcastCursor s))) \<noteq> []"
  shows "broadcastQueue (tick s) = broadcastQueue s"
  using assms by (simp add: tick_def Let_def)

lemma delete_other: "k \<noteq> fst entry \<Longrightarrow> entry \<in> set al \<Longrightarrow> entry \<in> set (AList.delete k al)"
  by (induction al) auto

lemma tick_entry_stays:
  assumes "entry \<in> set (broadcastQueue s)" and "snd entry \<noteq> []"
    and "distinct (map fst (broadcastQueue s))"
  shows "entry \<in> set (broadcastQueue (tick s)) \<and> distinct (map fst (broadcastQueue (tick s)))"
proof -
  define q where "q = broadcastQueue s"
  define i where "i = (if fst (broadcastCursor s) \<ge> length q then 0 else fst (broadcastCursor s))"
  have ne: "q \<noteq> []" using assms(1) by (auto simp: q_def)
  then have i: "i < length q" by (auto simp: i_def)
  show ?thesis
  proof (cases "snd (q ! i) = []")
    case False
    then have "broadcastQueue (tick s) = broadcastQueue s"
      using tick_keeps_nonempty[of s] ne by (simp add: q_def i_def)
    then show ?thesis using assms by simp
  next
    case True
    then have t: "broadcastQueue (tick s) = AList.delete (fst (q ! i)) q"
      using ne by (simp add: tick_def Let_def q_def i_def)
    have "q ! i \<in> set q" using i nth_mem by blast
    then have "fst (q ! i) \<noteq> fst entry"
      using True assms by (metis eq_key_imp_eq_value prod.collapse q_def)
    then have "entry \<in> set (AList.delete (fst (q ! i)) q)"
      using delete_other assms(1) by (simp add: q_def)
    moreover have "distinct (map fst (AList.delete (fst (q ! i)) q))"
      using assms(3) by (simp add: distinct_delete q_def)
    ultimately show ?thesis by (simp add: t)
  qed
qed


lemma two_rotations:
  "map (\<lambda>k. xs ! ((p + k) mod length xs)) [0..<length xs + length xs]
     = rotate p xs @ rotate p xs"
proof -
  let ?T = "length xs"
  have a: "[0..<?T + ?T] = [0..<?T] @ [?T..<?T + ?T]"
    by (rule upt_add_eq_append) simp
  have b: "[?T..<?T + ?T] = map (\<lambda>k. k + ?T) [0..<?T]"
    by (simp only: map_add_upt)
  have c: "map (\<lambda>k. xs ! ((p + k) mod ?T)) (map (\<lambda>k. k + ?T) [0..<?T])
      = map (\<lambda>k. xs ! ((p + k) mod ?T)) [0..<?T]"
  proof -
    have "(p + (k + ?T)) mod ?T = (p + k) mod ?T" for k
      by (simp add: add.assoc[symmetric])
    then show ?thesis by (simp add: comp_def)
  qed
  have "map (\<lambda>k. xs ! ((p + k) mod ?T)) [0..<?T + ?T]
      = map (\<lambda>k. xs ! ((p + k) mod ?T)) [0..<?T]
        @ map (\<lambda>k. xs ! ((p + k) mod ?T)) (map (\<lambda>k. k + ?T) [0..<?T])"
    by (simp only: a b map_append)
  then show ?thesis by (simp only: c rotate_as_map)
qed

lemma sent_twice:
  assumes "broadcastQueue s \<noteq> []" and "\<forall>entry \<in> set (broadcastQueue s). snd entry \<noteq> []"
  shows "broadcastLog (ticks (length (flatQueue (broadcastQueue s))
                               + length (flatQueue (broadcastQueue s))) s)
           = broadcastLog s @
             rotate (cursorPos (broadcastQueue s) (broadcastCursor s)) (flatQueue (broadcastQueue s)) @
             rotate (cursorPos (broadcastQueue s) (broadcastCursor s)) (flatQueue (broadcastQueue s))"
  using ticks_flat[OF assms, of "length (flatQueue (broadcastQueue s))
                               + length (flatQueue (broadcastQueue s))"]
  by (simp only: two_rotations)

text \<open>
  Claim C7, as the code has it. An entry that has at least one chunk is never removed by
  the scheduler: after any number of ticks, so also after the tick that sends its last
  chunk, it is still in the queue. A tick changes the queue only by deleting the entry
  it selects when that entry has no chunks, and then it sends nothing. And the entries
  are sent again: when no entry is empty, two traversals send every chunk twice.
\<close>

theorem entry_with_chunks_is_never_removed:
  assumes "entry \<in> set (broadcastQueue s)" and "snd entry \<noteq> []"
    and "distinct (map fst (broadcastQueue s))"
  shows "entry \<in> set (broadcastQueue (ticks n s)) \<and>
         (broadcastQueue (tick s) = broadcastQueue s \<or>
          (\<exists>gone \<in> set (broadcastQueue s). snd gone = [] \<and>
             broadcastQueue (tick s) = AList.delete (fst gone) (broadcastQueue s) \<and>
             broadcastLog (tick s) = broadcastLog s)) \<and>
         ((\<forall>other \<in> set (broadcastQueue s). snd other \<noteq> []) \<longrightarrow>
            broadcastLog (ticks (length (flatQueue (broadcastQueue s))
                                 + length (flatQueue (broadcastQueue s))) s)
              = broadcastLog s @
                rotate (cursorPos (broadcastQueue s) (broadcastCursor s))
                  (flatQueue (broadcastQueue s)) @
                rotate (cursorPos (broadcastQueue s) (broadcastCursor s))
                  (flatQueue (broadcastQueue s)))"
proof -
  have again: "(\<forall>other \<in> set (broadcastQueue s). snd other \<noteq> []) \<longrightarrow>
            broadcastLog (ticks (length (flatQueue (broadcastQueue s))
                                 + length (flatQueue (broadcastQueue s))) s)
              = broadcastLog s @
                rotate (cursorPos (broadcastQueue s) (broadcastCursor s))
                  (flatQueue (broadcastQueue s)) @
                rotate (cursorPos (broadcastQueue s) (broadcastCursor s))
                  (flatQueue (broadcastQueue s))"
  proof
    assume full: "\<forall>other \<in> set (broadcastQueue s). snd other \<noteq> []"
    have "broadcastQueue s \<noteq> []" using assms(1) by auto
    from sent_twice[OF this full] show "broadcastLog (ticks (length (flatQueue (broadcastQueue s))
                                 + length (flatQueue (broadcastQueue s))) s)
              = broadcastLog s @
                rotate (cursorPos (broadcastQueue s) (broadcastCursor s))
                  (flatQueue (broadcastQueue s)) @
                rotate (cursorPos (broadcastQueue s) (broadcastCursor s))
                  (flatQueue (broadcastQueue s))" .
  qed
  have stays: "entry \<in> set (broadcastQueue (ticks n s))"
    using assms
  proof (induction n arbitrary: s)
    case 0
    then show ?case by simp
  next
    case (Suc n)
    from tick_entry_stays[OF Suc.prems] Suc.IH[of "tick s"] Suc.prems(2)
    show ?case by simp
  qed
  define q where "q = broadcastQueue s"
  define i where "i = (if fst (broadcastCursor s) \<ge> length q then 0 else fst (broadcastCursor s))"
  have ne: "q \<noteq> []" using assms(1) by (auto simp: q_def)
  then have i: "q ! i \<in> set q" by (auto simp: i_def)
  have "broadcastQueue (tick s) = broadcastQueue s \<or>
          (\<exists>gone \<in> set (broadcastQueue s). snd gone = [] \<and>
             broadcastQueue (tick s) = AList.delete (fst gone) (broadcastQueue s) \<and>
             broadcastLog (tick s) = broadcastLog s)"
  proof (cases "snd (q ! i) = []")
    case False
    then show ?thesis using tick_keeps_nonempty[of s] ne by (simp add: q_def i_def)
  next
    case True
    then have "broadcastQueue (tick s) = AList.delete (fst (q ! i)) q \<and>
               broadcastLog (tick s) = broadcastLog s"
      using ne by (simp add: tick_def Let_def q_def i_def)
    then show ?thesis using True i unfolding q_def by blast
  qed
  then show ?thesis using stays again by blast
qed

section \<open>Round trip of a message through the codec and the reassembly\<close>

subsection \<open>Text and bytes\<close>

lemma char_roundtrip: "char_of (unat (word_of_nat (of_char c) :: 8 word)) = c"
proof -
  have "unat (word_of_nat (of_char c) :: 8 word) = of_char c mod 256"
    by (simp add: unat_of_nat)
  moreover have "(of_char c :: nat) < 256" by simp
  ultimately show ?thesis by simp
qed

lemma bytes_roundtrip: "map (\<lambda>b. char_of (unat b)) (textEncode t) = t"
  by (induction t) (simp_all add: textEncode_def char_roundtrip)

lemma utf8Decode_ascii:
  "b \<le> 0x7F \<Longrightarrow> utf8Decode [] 0 0x80 0xBF (b # bs) = b # utf8Decode [] 0 0x80 0xBF bs"
  by simp

lemma utf8Decode_lead2:
  "\<not> b \<le> 0x7F \<Longrightarrow> 0xC2 \<le> b \<and> b \<le> 0xDF \<Longrightarrow>
   utf8Decode [] 0 0x80 0xBF (b # bs) = utf8Decode [b] 1 0x80 0xBF bs"
  by simp

lemma utf8Decode_lead3:
  "\<not> b \<le> 0x7F \<Longrightarrow> \<not> (0xC2 \<le> b \<and> b \<le> 0xDF) \<Longrightarrow> 0xE0 \<le> b \<and> b \<le> 0xEF \<Longrightarrow>
   utf8Decode [] 0 0x80 0xBF (b # bs) = utf8Decode [b] 2 (lowerBoundary b) (upperBoundary b) bs"
  by auto

lemma utf8Decode_lead4:
  "\<not> b \<le> 0x7F \<Longrightarrow> \<not> (0xC2 \<le> b \<and> b \<le> 0xDF) \<Longrightarrow> \<not> (0xE0 \<le> b \<and> b \<le> 0xEF) \<Longrightarrow>
   0xF0 \<le> b \<and> b \<le> 0xF4 \<Longrightarrow>
   utf8Decode [] 0 0x80 0xBF (b # bs) = utf8Decode [b] 3 (lowerBoundary b) (upperBoundary b) bs"
  by auto

lemma utf8Decode_last:
  "lower \<le> b \<Longrightarrow> b \<le> upper \<Longrightarrow>
   utf8Decode pending 1 lower upper (b # bs) = pending @ [b] @ utf8Decode [] 0 0x80 0xBF bs"
  by simp

lemma utf8Decode_more:
  "lower \<le> b \<Longrightarrow> b \<le> upper \<Longrightarrow>
   utf8Decode pending (Suc (Suc k)) lower upper (b # bs)
     = utf8Decode (pending @ [b]) (Suc k) 0x80 0xBF bs"
  by simp

lemma utf8Decode_wellFormed:
  "wellFormedUTF8 bs \<Longrightarrow>
   utf8Decode [] 0 0x80 0xBF (bs @ rest) = bs @ utf8Decode [] 0 0x80 0xBF rest"
proof (induction bs rule: wellFormedUTF8.induct)
  case 1
  then show ?case by simp
next
  case (2 b bs)
  show ?case
  proof (cases "b \<le> 0x7F")
    case True
    then have "wellFormedUTF8 bs" using "2.prems" by simp
    from "2.IH"(1)[OF True this] show ?thesis
      using utf8Decode_ascii[OF True] by simp
  next
    case n1: False
    show ?thesis
    proof (cases "0xC2 \<le> b \<and> b \<le> 0xDF")
      case True
      then obtain c1 r where bs: "bs = c1 # r" and c: "0x80 \<le> c1" "c1 \<le> 0xBF"
        and r: "wellFormedUTF8 r"
        using "2.prems" n1 by (auto split: list.splits)
      have ih: "utf8Decode [] 0 0x80 0xBF (r @ rest) = r @ utf8Decode [] 0 0x80 0xBF rest"
        using "2.IH"(2)[OF n1 True bs r] .
      have "utf8Decode [] 0 0x80 0xBF ((b # c1 # r) @ rest)
          = utf8Decode [b] 1 0x80 0xBF (c1 # r @ rest)"
        using utf8Decode_lead2[OF n1 True] by simp
      also have "\<dots> = [b] @ [c1] @ utf8Decode [] 0 0x80 0xBF (r @ rest)"
        by (rule utf8Decode_last[OF c])
      finally show ?thesis by (simp add: bs ih)
    next
      case n2: False
      show ?thesis
      proof (cases "0xE0 \<le> b \<and> b \<le> 0xEF")
        case True
        then obtain c1 c2 r where bs: "bs = c1 # c2 # r"
          and c: "lowerBoundary b \<le> c1" "c1 \<le> upperBoundary b"
          and c': "0x80 \<le> c2" "c2 \<le> 0xBF"
          and r: "wellFormedUTF8 r"
          using "2.prems" n1 n2 by (auto split: list.splits)
        have ih: "utf8Decode [] 0 0x80 0xBF (r @ rest) = r @ utf8Decode [] 0 0x80 0xBF rest"
          using "2.IH"(3)[OF n1 n2 True bs _ r] by simp
        have "utf8Decode [] 0 0x80 0xBF ((b # c1 # c2 # r) @ rest)
            = utf8Decode [b] (Suc (Suc 0)) (lowerBoundary b) (upperBoundary b) (c1 # c2 # r @ rest)"
          using utf8Decode_lead3[OF n1 n2 True] by (simp add: numeral_2_eq_2)
        also have "\<dots> = utf8Decode ([b] @ [c1]) (Suc 0) 0x80 0xBF (c2 # r @ rest)"
          by (rule utf8Decode_more[OF c])
        also have "\<dots> = ([b] @ [c1]) @ [c2] @ utf8Decode [] 0 0x80 0xBF (r @ rest)"
          using utf8Decode_last[OF c'] by simp
        finally show ?thesis by (simp add: bs ih)
      next
        case n3: False
        then have f: "0xF0 \<le> b \<and> b \<le> 0xF4"
          using "2.prems" n1 n2 by (auto split: if_splits)
        then obtain c1 c2 c3 r where bs: "bs = c1 # c2 # c3 # r"
          and c: "lowerBoundary b \<le> c1" "c1 \<le> upperBoundary b"
          and c': "0x80 \<le> c2" "c2 \<le> 0xBF"
          and c'': "0x80 \<le> c3" "c3 \<le> 0xBF"
          and r: "wellFormedUTF8 r"
          using "2.prems" n1 n2 n3 by (auto split: list.splits)
        have ih: "utf8Decode [] 0 0x80 0xBF (r @ rest) = r @ utf8Decode [] 0 0x80 0xBF rest"
          using "2.IH"(4)[OF n1 n2 n3 f bs _ _ r] by simp
        have "utf8Decode [] 0 0x80 0xBF ((b # c1 # c2 # c3 # r) @ rest)
            = utf8Decode [b] (Suc (Suc (Suc 0))) (lowerBoundary b) (upperBoundary b)
                (c1 # c2 # c3 # r @ rest)"
          using utf8Decode_lead4[OF n1 n2 n3 f] by (simp add: numeral_3_eq_3)
        also have "\<dots> = utf8Decode ([b] @ [c1]) (Suc (Suc 0)) 0x80 0xBF (c2 # c3 # r @ rest)"
          by (rule utf8Decode_more[OF c])
        also have "\<dots> = utf8Decode (([b] @ [c1]) @ [c2]) (Suc 0) 0x80 0xBF (c3 # r @ rest)"
          by (rule utf8Decode_more[OF c'])
        also have "\<dots> = (([b] @ [c1]) @ [c2]) @ [c3] @ utf8Decode [] 0 0x80 0xBF (r @ rest)"
          using utf8Decode_last[OF c''] by simp
        finally show ?thesis by (simp add: bs ih)
      qed
    qed
  qed
qed

lemma utf8Decode_zeros: "utf8Decode [] 0 0x80 0xBF (replicate k 0) = replicate k 0"
  by (induction k) simp_all

lemma no_BOM_padded:
  assumes "take 3 bs \<noteq> utf8BOM"
  shows "take 3 (bs @ replicate k 0) \<noteq> utf8BOM"
proof
  assume e: "take 3 (bs @ replicate k 0) = utf8BOM"
  have "take 3 (bs @ replicate k 0) = take 3 bs @ replicate (min (3 - length bs) k) 0"
    by simp
  then have "set (replicate (min (3 - length bs) k) (0 :: byte)) \<subseteq> set utf8BOM"
    using e by (metis set_append sup_ge2)
  moreover have "(0 :: byte) \<notin> set utf8BOM" by (simp add: utf8BOM_def)
  ultimately have "min (3 - length bs) k = 0" by (cases "min (3 - length bs) k") auto
  then have "take 3 (bs @ replicate k 0) = take 3 bs" by simp
  then show False using e assms by simp
qed

lemma textDecode_padded:
  assumes "wellFormedUTF8 (textEncode t)" and "take 3 (textEncode t) \<noteq> utf8BOM"
  shows "textDecode (textEncode t @ replicate k 0) = t @ replicate k (CHR 0x00)"
proof -
  have zeros: "map (\<lambda>b. char_of (unat b)) (replicate k (0 :: byte)) = replicate k (CHR 0x00)"
    by (simp add: char_of_def)
  have "textDecode (textEncode t @ replicate k 0)
      = map (\<lambda>b. char_of (unat b))
          (utf8Decode [] 0 0x80 0xBF (textEncode t @ replicate k 0))"
    using no_BOM_padded[OF assms(2), of k] by (simp only: textDecode_def if_False)
  also have "\<dots> = map (\<lambda>b. char_of (unat b)) (textEncode t @ replicate k 0)"
    by (simp only: utf8Decode_wellFormed[OF assms(1)] utf8Decode_zeros)
  finally show ?thesis by (simp only: map_append bytes_roundtrip zeros)
qed

lemma fragments_concat_take:
  "concat (map (fragment bs) [0..<n])
     = take (DATA_PER_CHUNK * n) bs @ replicate (DATA_PER_CHUNK * n - length bs) 0"
proof (induction n)
  case 0
  then show ?case by simp
next
  case (Suc n)
  show ?case
  proof (cases "length bs \<le> DATA_PER_CHUNK * n")
    case True
    then have "fragment bs n = replicate DATA_PER_CHUNK 0"
      by (simp add: fragment_def)
    moreover have "DATA_PER_CHUNK * n - length bs + DATA_PER_CHUNK
        = DATA_PER_CHUNK * Suc n - length bs" using True by simp
    ultimately show ?thesis using Suc True
      by (simp add: replicate_add[symmetric])
  next
    case False
    have "DATA_PER_CHUNK * Suc n = DATA_PER_CHUNK * n + DATA_PER_CHUNK" by simp
    then have "take (DATA_PER_CHUNK * n) bs @ take DATA_PER_CHUNK (drop (DATA_PER_CHUNK * n) bs)
        = take (DATA_PER_CHUNK * Suc n) bs"
      by (simp only: take_add)
    moreover have "DATA_PER_CHUNK - length (take DATA_PER_CHUNK (drop (DATA_PER_CHUNK * n) bs))
        = DATA_PER_CHUNK * Suc n - length bs" using False by (simp add: min_def)
    ultimately show ?thesis using Suc False
      by (simp add: fragment_def Let_def)
  qed
qed

lemma fragmentCount_covers: "length bs \<le> DATA_PER_CHUNK * fragmentCount bs"
  by (simp add: fragmentCount_def DATA_PER_CHUNK_def max_def) presburger

lemma fragments_concat:
  "concat (map (fragment bs) [0..<fragmentCount bs])
     = bs @ replicate (DATA_PER_CHUNK * fragmentCount bs - length bs) 0"
  using fragmentCount_covers[of bs] by (simp add: fragments_concat_take)

lemma encode_payloads:
  "concat (map payload (encodeMessageToChunks M a ident))
     = textEncode M @
       replicate (DATA_PER_CHUNK * fragmentCount (textEncode M) - length (textEncode M)) 0"
proof -
  have "map payload (encodeMessageToChunks M a ident)
      = map (fragment (textEncode M)) [0..<fragmentCount (textEncode M)]"
    by (simp add: encodeMessageToChunks_def Let_def comp_def)
  then show ?thesis by (simp add: fragments_concat)
qed

lemma encode_seqs:
  "map hdr_seq (encodeMessageToChunks M a ident) = map Suc [0..<fragmentCount (textEncode M)]"
  by (simp add: encodeMessageToChunks_def Let_def comp_def)

lemma encode_headers:
  assumes "c \<in> set (encodeMessageToChunks M a ident)"
  shows "hdr_id c = ident \<and> hdr_total c = fragmentCount (textEncode M) \<and> hdr_ack c = a \<and>
         length (payload c) = DATA_PER_CHUNK"
  using assms by (auto simp: encodeMessageToChunks_def Let_def fragment_def)

lemma placeParts_concat:
  assumes "\<forall>i \<in> set is. \<exists>c. map_of cs i = Some c"
    and "offset + length (concat (map (\<lambda>i. payload (the (map_of cs i))) is)) \<le> length buf"
  shows "placeParts cs is buf offset
           = Inr (take offset buf @ concat (map (\<lambda>i. payload (the (map_of cs i))) is)
                  @ drop (offset + length (concat (map (\<lambda>i. payload (the (map_of cs i))) is))) buf)"
  using assms
proof (induction "is" arbitrary: buf offset)
  case Nil
  then show ?case by simp
next
  case (Cons i "is")
  obtain c where c: "map_of cs i = Some c" using Cons.prems(1) by auto
  let ?rest = "concat (map (\<lambda>i. payload (the (map_of cs i))) is)"
  let ?buf = "take offset buf @ payload c @ drop (offset + length (payload c)) buf"
  have fits: "offset + length (payload c) + length ?rest \<le> length buf"
    using Cons.prems(2) c by simp
  have len: "length ?buf = length buf" using fits by simp
  have ih: "placeParts cs is ?buf (offset + length (payload c))
      = Inr (take (offset + length (payload c)) ?buf @ ?rest
             @ drop (offset + length (payload c) + length ?rest) ?buf)"
    using Cons.IH[of "offset + length (payload c)" ?buf] Cons.prems(1) fits len by simp
  have t: "take (offset + length (payload c)) ?buf = take offset buf @ payload c"
    using fits by simp
  have d: "drop (offset + length (payload c) + length ?rest) ?buf
      = drop (offset + length (payload c) + length ?rest) buf"
    using fits by (simp add: ac_simps)
  have step: "placeParts cs (i # is) buf offset
      = placeParts cs is ?buf (offset + length (payload c))"
    using c fits by (simp add: Let_def)
  have "placeParts cs (i # is) buf offset
      = Inr (take offset buf @ payload c @ ?rest
             @ drop (offset + length (payload c) + length ?rest) buf)"
    unfolding step ih t d by simp
  then show ?case using c by (simp add: ac_simps)
qed

subsection \<open>Reassembly of the fragments, in any order of arrival\<close>

lemma reassemble_permuted:
  assumes "mset order = mset (encodeMessageToChunks M a ident)"
    and wf: "wellFormedUTF8 (textEncode M)"
    and noBOM: "take 3 (textEncode M) \<noteq> utf8BOM"
  shows "reassemble \<lparr>ms_id = i, totalChunks = length order, isComplete = done, isAck = a',
                     chunks = map (\<lambda>c. (hdr_seq c, c)) order, fullMessage = fm\<rparr>
           = Inr (removeNulls M)"
proof -
  define E where "E = encodeMessageToChunks M a ident"
  define n where "n = fragmentCount (textEncode M)"
  define cs where "cs = map (\<lambda>c. (hdr_seq c, c)) order"
  have lenE: "length E = n" by (simp add: E_def n_def length_encode)
  have len: "length order = n"
    using assms(1) lenE mset_eq_length[of order E] by (simp add: E_def)
  have setE: "set order = set E"
    using assms(1) mset_eq_setD[of order E] by (simp add: E_def)
  have seqE: "map hdr_seq E = map Suc [0..<n]" by (simp add: E_def n_def encode_seqs)
  have "mset (map hdr_seq order) = mset (map hdr_seq E)"
    using assms(1) by (simp add: E_def)
  then have "distinct (map hdr_seq order) = distinct (map hdr_seq E)"
    by (rule mset_eq_imp_distinct_iff)
  then have dist: "distinct (map fst cs)" by (simp add: cs_def seqE comp_def distinct_map)
  have look: "map_of cs (Suc k) = Some (E ! k)" if "k < n" for k
  proof -
    have "E ! k \<in> set order" using that lenE setE by simp
    moreover have "hdr_seq (E ! k) = Suc k"
    proof -
      have "map hdr_seq E ! k = map Suc [0..<n] ! k" by (simp only: seqE)
      then show ?thesis using that lenE by simp
    qed
    ultimately have "(Suc k, E ! k) \<in> set cs" by (force simp: cs_def)
    then show ?thesis using dist by simp
  qed
  define ix where "ix = [1..<Suc n]"
  have idx: "ix = map Suc [0..<n]" by (simp add: ix_def map_Suc_upt)
  have parts: "map (\<lambda>i. payload (the (map_of cs i))) ix = map payload E"
  proof -
    have "map (\<lambda>i. payload (the (map_of cs i))) ix
        = map (\<lambda>k. payload (the (map_of cs (Suc k)))) [0..<n]"
      by (simp only: idx map_map comp_def)
    also have "\<dots> = map (\<lambda>k. payload (E ! k)) [0..<n]"
      using look by simp
    also have "\<dots> = map payload (map (\<lambda>k. E ! k) [0..<length E])"
      by (simp add: lenE comp_def)
    finally show ?thesis by (simp add: map_nth)
  qed
  have cat: "concat (map payload E)
      = textEncode M @ replicate (DATA_PER_CHUNK * n - length (textEncode M)) 0"
    by (simp add: E_def n_def encode_payloads)
  have catlen: "length (concat (map payload E)) = n * DATA_PER_CHUNK"
    using fragmentCount_covers[of "textEncode M"] by (simp add: cat n_def mult.commute)
  have all: "\<forall>i \<in> set ix. \<exists>c. map_of cs i = Some c"
  proof
    fix j assume "j \<in> set ix"
    then have "1 \<le> j" "j \<le> n" by (auto simp: idx)
    then have "j = Suc (j - 1)" "j - 1 < n" by simp_all
    then show "\<exists>c. map_of cs j = Some c" using look[of "j - 1"] by simp
  qed
  have "placeParts cs ix (replicate (n * DATA_PER_CHUNK) 0) 0
      = Inr (concat (map payload E))"
    using placeParts_concat[OF all, of 0 "replicate (n * DATA_PER_CHUNK) 0"]
    by (simp add: parts catlen)
  then have "reassemble \<lparr>ms_id = i, totalChunks = n, isComplete = done, isAck = a',
                     chunks = cs, fullMessage = fm\<rparr>
      = Inr (removeNulls (textDecode (concat (map payload E))))"
    by (simp add: reassemble_def ix_def)
  moreover have "removeNulls (textDecode (concat (map payload E))) = removeNulls M"
    by (simp add: cat textDecode_padded[OF wf noBOM] removeNulls_def)
  ultimately show ?thesis by (simp add: len cs_def)
qed

text \<open>
  One fragment of a message arrives at a device that holds \<open>hs\<close> of its fragments: a
  fragment already held changes nothing, another one is stored, and the last missing
  one completes the entry.
\<close>

lemma handle_fragment:
  assumes wf: "hdr_id c = ident" "hdr_total c = n" "hdr_ack c = a"
      "length (payload c) = DATA_PER_CHUNK"
    and own: "ident \<notin> ownMessageIds s"
    and st: "masterState s ident =
               Some \<lparr>ms_id = i0, totalChunks = n, isComplete = False, isAck = a,
                      chunks = map (\<lambda>c. (hdr_seq c, c)) hs, fullMessage = fm\<rparr>
             \<or> (hs = [] \<and> fm = [] \<and> i0 = ident \<and> masterState s ident = None)
             \<or> (hs = [] \<and> fm = [] \<and> a \<and>
                 (\<exists>e. masterState s ident = Some e \<and> \<not> isAck e \<and> i0 = ms_id e))"
  shows "ownMessageIds (fst (handleIncomingChunk online now c s)) = ownMessageIds s"
    and "hdr_seq c \<in> hdr_seq ` set hs \<Longrightarrow>
         snd (handleIncomingChunk online now c s) = NoDispatch \<and>
         masterState (fst (handleIncomingChunk online now c s)) ident = masterState s ident"
    and "hdr_seq c \<notin> hdr_seq ` set hs \<Longrightarrow> Suc (length hs) \<noteq> n \<Longrightarrow>
         snd (handleIncomingChunk online now c s) = NoDispatch \<and>
         masterState (fst (handleIncomingChunk online now c s)) ident =
           Some \<lparr>ms_id = i0, totalChunks = n, isComplete = False, isAck = a,
                  chunks = map (\<lambda>c. (hdr_seq c, c)) (hs @ [c]), fullMessage = fm\<rparr>"
    and "hdr_seq c \<notin> hdr_seq ` set hs \<Longrightarrow> Suc (length hs) = n \<Longrightarrow>
         reassemble \<lparr>ms_id = i0, totalChunks = n, isComplete = True, isAck = a,
                     chunks = map (\<lambda>c. (hdr_seq c, c)) (hs @ [c]), fullMessage = fm\<rparr>
           = Inr txt \<Longrightarrow>
         snd (handleIncomingChunk online now c s) =
           (if a then NoDispatch
            else if online then CallHandleApiResponse ident txt else ParseAndHandleRelay txt) \<and>
         masterState (fst (handleIncomingChunk online now c s)) ident =
           Some \<lparr>ms_id = i0, totalChunks = n, isComplete = True, isAck = a,
                  chunks = map (\<lambda>c. (hdr_seq c, c)) (hs @ [c]), fullMessage = txt\<rparr>"
proof -
  define d where "d = \<lparr>d_id = ident, d_totalChunks = n, d_chunkNumber = hdr_seq c,
             d_isAck = a, decodedData = textDecode (payload c)\<rparr>"
  define s1 where "s1 = (if ident \<notin> receivedMessageIds s
             then s\<lparr>receivedMessageIds := insert ident (receivedMessageIds s),
                    peerActivity := (peerActivity s)(ident \<mapsto> now)\<rparr>
             else s)"
  define entry where "entry = \<lparr>ms_id = i0, totalChunks = n, isComplete = False, isAck = a,
                   chunks = map (\<lambda>c. (hdr_seq c, c)) hs, fullMessage = fm\<rparr>"
  have dec: "decodeSingleChunk c = Some d"
    using wf by (simp add: decodeSingleChunk_def d_def)
  have h: "handleIncomingChunk online now c s = storeChunk online d c entry s1"
    using st
  proof (elim disjE conjE exE)
    assume "masterState s ident =
               Some \<lparr>ms_id = i0, totalChunks = n, isComplete = False, isAck = a,
                      chunks = map (\<lambda>c. (hdr_seq c, c)) hs, fullMessage = fm\<rparr>"
    then show ?thesis
      using own not_heartbeat[OF wf(4)]
      by (simp add: handleIncomingChunk_def dec Let_def d_def s1_def entry_def)
  next
    assume "hs = []" "fm = []" "i0 = ident" "masterState s ident = None"
    then show ?thesis
      using own not_heartbeat[OF wf(4)]
      by (simp add: handleIncomingChunk_def dec Let_def d_def s1_def entry_def newEntry_def)
  next
    fix e
    assume a: "hs = []" "fm = []" "a" "masterState s ident = Some e" "\<not> isAck e" "i0 = ms_id e"
    have "ackTransition e n = entry"
      using a by (cases e) (simp add: ackTransition_def entry_def)
    then show ?thesis
      using own not_heartbeat[OF wf(4)] a(3,4,5)
      by (simp add: handleIncomingChunk_def dec Let_def d_def s1_def)
  qed
  have own1: "ownMessageIds s1 = ownMessageIds s" by (simp add: s1_def)
  have ms1: "masterState s1 = masterState s" by (simp add: s1_def)
  show "ownMessageIds (fst (handleIncomingChunk online now c s)) = ownMessageIds s"
    unfolding h storeChunk_def Let_def using own1
    by (simp split: sum.splits)
  show "snd (handleIncomingChunk online now c s) = NoDispatch \<and>
         masterState (fst (handleIncomingChunk online now c s)) ident = masterState s ident"
    if dup: "hdr_seq c \<in> hdr_seq ` set hs"
  proof -
    have "hs \<noteq> []" using dup by auto
    then have e: "masterState s ident = Some entry" using st by (auto simp: entry_def)
    have "map_of (chunks entry) (d_chunkNumber d) \<noteq> None"
      using dup by (simp add: entry_def d_def map_of_eq_None_iff image_image)
    then show ?thesis
      unfolding h storeChunk_def using e by (simp add: ms1 d_def)
  qed
  have absent: "map_of (chunks entry) (d_chunkNumber d) = None"
    if "hdr_seq c \<notin> hdr_seq ` set hs"
    using that by (simp add: entry_def d_def map_of_eq_None_iff image_image)
  have upd: "AList.update (d_chunkNumber d) c (chunks entry)
      = map (\<lambda>c. (hdr_seq c, c)) (hs @ [c])"
    if "hdr_seq c \<notin> hdr_seq ` set hs"
    using that by (simp add: entry_def d_def update_append image_image)
  show "snd (handleIncomingChunk online now c s) = NoDispatch \<and>
         masterState (fst (handleIncomingChunk online now c s)) ident =
           Some \<lparr>ms_id = i0, totalChunks = n, isComplete = False, isAck = a,
                  chunks = map (\<lambda>c. (hdr_seq c, c)) (hs @ [c]), fullMessage = fm\<rparr>"
    if "hdr_seq c \<notin> hdr_seq ` set hs" "Suc (length hs) \<noteq> n"
    unfolding h storeChunk_def Let_def upd[OF that(1)]
    using that absent[OF that(1)] by (simp add: entry_def d_def)
  show "snd (handleIncomingChunk online now c s) =
           (if a then NoDispatch
            else if online then CallHandleApiResponse ident txt else ParseAndHandleRelay txt) \<and>
         masterState (fst (handleIncomingChunk online now c s)) ident =
           Some \<lparr>ms_id = i0, totalChunks = n, isComplete = True, isAck = a,
                  chunks = map (\<lambda>c. (hdr_seq c, c)) (hs @ [c]), fullMessage = txt\<rparr>"
    if "hdr_seq c \<notin> hdr_seq ` set hs" "Suc (length hs) = n"
       "reassemble \<lparr>ms_id = i0, totalChunks = n, isComplete = True, isAck = a,
                     chunks = map (\<lambda>c. (hdr_seq c, c)) (hs @ [c]), fullMessage = fm\<rparr>
           = Inr txt"
    unfolding h storeChunk_def Let_def upd[OF that(1)]
    using that absent[OF that(1)] by (simp add: entry_def d_def)
qed

lemma handle_complete_entry:
  assumes "masterState s (hdr_id c) = Some entry" and "isComplete entry"
    and "isAck entry \<or> \<not> hdr_ack c"
  shows "masterState (fst (handleIncomingChunk online now c s)) = masterState s \<and>
         snd (handleIncomingChunk online now c s) = NoDispatch"
proof (cases "decodeSingleChunk c")
  case None
  then show ?thesis by (simp add: handleIncomingChunk_def)
next
  case (Some d)
  then have d: "d_id d = hdr_id c" "d_isAck d = hdr_ack c"
    by (auto simp: decodeSingleChunk_def split: if_splits)
  have t: "(masterState s)(hdr_id c \<mapsto> entry) = masterState s"
    using assms(1) by (simp add: fun_upd_idem)
  show ?thesis
    using assms Some d t
    by (auto simp: handleIncomingChunk_def Let_def storeChunk_complete)
qed

lemma deliver_complete:
  assumes "masterState s ident = Some entry" and "isComplete entry"
    and "\<forall>c \<in> set xs. hdr_id c = ident \<and> hdr_ack c = isAck entry"
  shows "masterState (fst (deliver online now xs s)) = masterState s \<and>
         snd (deliver online now xs s) = []"
  using assms
proof (induction xs arbitrary: s)
  case Nil
  then show ?case by simp
next
  case (Cons c xs)
  have c: "hdr_id c = ident" "isAck entry \<or> \<not> hdr_ack c" using Cons.prems(3) by auto
  have m: "masterState s (hdr_id c) = Some entry" using Cons.prems(1) c by simp
  note H = handle_complete_entry[OF m Cons.prems(2) c(2), of online now]
  obtain s1 d where hd: "handleIncomingChunk online now c s = (s1, d)"
    by (cases "handleIncomingChunk online now c s")
  have s1: "masterState s1 = masterState s" "d = NoDispatch" using H hd by simp_all
  have "masterState (fst (deliver online now xs s1)) = masterState s1 \<and>
         snd (deliver online now xs s1) = []"
    using Cons.IH[of s1] Cons.prems s1 by simp
  then show ?case using hd s1 by (simp split: prod.splits)
qed


lemma deliver_held:
  assumes wfE: "\<forall>c \<in> set E. hdr_id c = ident \<and> hdr_total c = n \<and> hdr_ack c = a \<and>
             length (payload c) = DATA_PER_CHUNK"
    and dE: "distinct (map hdr_seq E)" and lE: "length E = n"
    and xsE: "set xs \<subseteq> set E" and dxs: "distinct xs"
    and hsE: "set hs \<subseteq> set E" and dhs: "distinct hs" and lhs: "length hs < n"
    and cover: "set E \<subseteq> set hs \<union> set xs"
    and own: "ident \<notin> ownMessageIds s"
    and st: "masterState s ident =
               Some \<lparr>ms_id = i0, totalChunks = n, isComplete = False, isAck = a,
                      chunks = map (\<lambda>c. (hdr_seq c, c)) hs, fullMessage = fm\<rparr>
             \<or> (hs = [] \<and> fm = [] \<and> i0 = ident \<and> masterState s ident = None)
             \<or> (hs = [] \<and> fm = [] \<and> a \<and>
                 (\<exists>e. masterState s ident = Some e \<and> \<not> isAck e \<and> i0 = ms_id e))"
    and R: "\<And>fs. mset fs = mset E \<Longrightarrow>
             reassemble \<lparr>ms_id = i0, totalChunks = n, isComplete = True, isAck = a,
                         chunks = map (\<lambda>c. (hdr_seq c, c)) fs, fullMessage = fm\<rparr> = Inr txt"
  shows "masterState (fst (deliver online now xs s)) ident =
           Some \<lparr>ms_id = i0, totalChunks = n, isComplete = True, isAck = a,
                  chunks = map (\<lambda>c. (hdr_seq c, c)) (hs @ filter (\<lambda>c. c \<notin> set hs) xs),
                  fullMessage = txt\<rparr> \<and>
         snd (deliver online now xs s) =
           (if a then []
            else [if online then CallHandleApiResponse ident txt else ParseAndHandleRelay txt])"
  using xsE dxs hsE dhs lhs cover own st
proof (induction xs arbitrary: hs s)
  case Nil
  have distE: "distinct E" using dE by (simp add: distinct_map)
  have "set E \<subseteq> set hs" using Nil.prems(6) by simp
  then have "card (set E) \<le> card (set hs)" by (simp add: card_mono)
  then have "n \<le> length hs"
    using distinct_card[OF distE] distinct_card[OF Nil.prems(4)] lE by simp
  then show ?case using Nil.prems(5) by simp
next
  case (Cons c xs)
  have distE: "distinct E" using dE by (simp add: distinct_map)
  have inj: "inj_on hdr_seq (set E)" using dE by (simp add: distinct_map)
  have cE: "c \<in> set E" using Cons.prems(1) by simp
  have wf: "hdr_id c = ident" "hdr_total c = n" "hdr_ack c = a"
      "length (payload c) = DATA_PER_CHUNK"
    using wfE cE by simp_all
  have cxs: "c \<notin> set xs" using Cons.prems(2) by simp
  have seq: "hdr_seq c \<in> hdr_seq ` set hs \<longleftrightarrow> c \<in> set hs"
    using inj cE Cons.prems(3) by (auto dest: inj_onD)
  note H = handle_fragment[OF wf Cons.prems(7) Cons.prems(8),
      where online = online and now = now]
  obtain s1 d where hd: "handleIncomingChunk online now c s = (s1, d)"
    by (cases "handleIncomingChunk online now c s")
  have o: "ident \<notin> ownMessageIds s1" using H(1) hd Cons.prems(7) by simp
  show ?case
  proof (cases "c \<in> set hs")
    case True
    then have dup: "hdr_seq c \<in> hdr_seq ` set hs" using seq by simp
    have ne: "hs \<noteq> []" using True by auto
    from H(2)[OF dup] hd have d: "d = NoDispatch"
      and m: "masterState s1 ident = masterState s ident" by simp_all
    have st1: "masterState s1 ident =
               Some \<lparr>ms_id = i0, totalChunks = n, isComplete = False, isAck = a,
                      chunks = map (\<lambda>c. (hdr_seq c, c)) hs, fullMessage = fm\<rparr>
             \<or> (hs = [] \<and> fm = [] \<and> i0 = ident \<and> masterState s1 ident = None)
             \<or> (hs = [] \<and> fm = [] \<and> a \<and>
                 (\<exists>e. masterState s1 ident = Some e \<and> \<not> isAck e \<and> i0 = ms_id e))"
      using Cons.prems(8) ne m by simp
    have cov: "set E \<subseteq> set hs \<union> set xs" using Cons.prems(6) True by auto
    have xs: "set xs \<subseteq> set E" "distinct xs" using Cons.prems(1,2) by simp_all
    note ih = Cons.IH[OF xs Cons.prems(3) Cons.prems(4) Cons.prems(5) cov o st1]
    show ?thesis using ih hd d True by (simp split: prod.splits)
  next
    case False
    then have fresh: "hdr_seq c \<notin> hdr_seq ` set hs" using seq by simp
    have sub: "set (hs @ [c]) \<subseteq> set E" using Cons.prems(3) cE by simp
    have dis: "distinct (hs @ [c])" using Cons.prems(4) False by simp
    have "card (set (hs @ [c])) \<le> card (set E)" using sub by (simp add: card_mono)
    then have le: "Suc (length hs) \<le> n"
      using distinct_card[OF dis] distinct_card[OF distE] lE by simp
    show ?thesis
    proof (cases "Suc (length hs) = n")
      case True
      have "card (set (hs @ [c])) = card (set E)"
        using distinct_card[OF dis] distinct_card[OF distE] lE True by simp
      then have seteq: "set (hs @ [c]) = set E"
        using sub by (simp add: card_subset_eq)
      then have "mset (hs @ [c]) = mset E"
        using dis distE by (simp only: set_eq_iff_mset_eq_distinct[symmetric])
      then have r: "reassemble \<lparr>ms_id = i0, totalChunks = n, isComplete = True, isAck = a,
                     chunks = map (\<lambda>c. (hdr_seq c, c)) (hs @ [c]), fullMessage = fm\<rparr>
           = Inr txt" by (rule R)
      define entry where "entry = \<lparr>ms_id = i0, totalChunks = n, isComplete = True, isAck = a,
                  chunks = map (\<lambda>c. (hdr_seq c, c)) (hs @ [c]), fullMessage = txt\<rparr>"
      from H(4)[OF fresh True r] hd have d: "d =
           (if a then NoDispatch
            else if online then CallHandleApiResponse ident txt else ParseAndHandleRelay txt)"
        and m: "masterState s1 ident = Some entry" by (simp_all add: entry_def)
      have all: "\<forall>c \<in> set xs. hdr_id c = ident \<and> hdr_ack c = isAck entry"
        using wfE Cons.prems(1) by (auto simp: entry_def)
      have c: "isComplete entry" by (simp add: entry_def)
      note dc = deliver_complete[OF m c all, of online now]
      have "set xs \<subseteq> set hs" using Cons.prems(1) seteq cxs by auto
      then have f: "filter (\<lambda>c. c \<notin> set hs) xs = []" by (auto simp: filter_empty_conv)
      obtain s2 ds where dl: "deliver online now xs s1 = (s2, ds)"
        by (cases "deliver online now xs s1")
      have s2: "masterState s2 ident = Some entry" and ds: "ds = []"
        using dc dl m by simp_all
      have res: "deliver online now (c # xs) s = (s2, if d = NoDispatch then [] else [d])"
        using hd dl ds by simp
      have disp: "(if d = NoDispatch then [] else [d]) =
           (if a then []
            else [if online then CallHandleApiResponse ident txt else ParseAndHandleRelay txt])"
        by (simp add: d)
      have flt: "filter (\<lambda>c. c \<notin> set hs) (c # xs) = [c]" using False f by simp
      show ?thesis unfolding res flt disp using s2 by (simp add: entry_def)
    next
      case F: False
      from H(3)[OF fresh F] hd have d: "d = NoDispatch"
        and m: "masterState s1 ident =
           Some \<lparr>ms_id = i0, totalChunks = n, isComplete = False, isAck = a,
                  chunks = map (\<lambda>c. (hdr_seq c, c)) (hs @ [c]), fullMessage = fm\<rparr>"
        by simp_all
      have st1: "masterState s1 ident =
               Some \<lparr>ms_id = i0, totalChunks = n, isComplete = False, isAck = a,
                      chunks = map (\<lambda>c. (hdr_seq c, c)) (hs @ [c]), fullMessage = fm\<rparr>
             \<or> (hs @ [c] = [] \<and> fm = [] \<and> i0 = ident \<and> masterState s1 ident = None)
             \<or> (hs @ [c] = [] \<and> fm = [] \<and> a \<and>
                 (\<exists>e. masterState s1 ident = Some e \<and> \<not> isAck e \<and> i0 = ms_id e))"
        using m by simp
      have len: "length (hs @ [c]) < n" using le F by simp
      have cov: "set E \<subseteq> set (hs @ [c]) \<union> set xs" using Cons.prems(6) by auto
      have xs: "set xs \<subseteq> set E" "distinct xs" using Cons.prems(1,2) by simp_all
      note ih = Cons.IH[OF xs sub dis len cov o st1]
      have f: "filter (\<lambda>x. x \<notin> set (hs @ [c])) xs = filter (\<lambda>x. x \<notin> set hs) xs"
        using cxs by (auto intro: filter_cong)
      show ?thesis using ih hd d False unfolding f by (simp split: prod.splits)
    qed
  qed
qed


text \<open>
  Claim C1, as the code has it. Let M be a message that is well-formed UTF-8, holds no
  zero byte and does not begin with a byte order mark, and let its encoded fragments be
  delivered in any order, each once, to a device that did not send it and that holds
  under the id no entry, or the request that these fragments acknowledge, or an entry
  that is still collecting some of these fragments. Then the entry is complete, its
  fragments are stored under their sequence numbers, those already held first and the
  others in the order of arrival, and the reassembled message is M exactly; it is handed
  on once, by the dispatch of the fragment that completes it, and not at all for an
  acknowledgement. The fragments are concatenated in sequence order whatever the order
  of arrival, and what is stripped is the zero padding of the final fragment.
\<close>

theorem reassembly_roundtrip_any_order:
  assumes "wellFormedUTF8 (textEncode M)" and "CHR 0x00 \<notin> set M"
    and "take 3 (textEncode M) \<noteq> utf8BOM"
    and "mset order = mset (encodeMessageToChunks M a ident)"
    and "ident \<notin> ownMessageIds s"
    and "awaitsFragments (encodeMessageToChunks M a ident) a (masterState s ident)"
  shows "masterState (fst (deliver online now order s)) ident =
           Some \<lparr>ms_id = (case masterState s ident of None \<Rightarrow> ident | Some e \<Rightarrow> ms_id e),
                  totalChunks = length order, isComplete = True, isAck = a,
                  chunks = map (\<lambda>c. (hdr_seq c, c))
                     (heldFragments a (masterState s ident) @
                      filter (\<lambda>c. c \<notin> set (heldFragments a (masterState s ident))) order),
                  fullMessage = M\<rparr> \<and>
         snd (deliver online now order s) =
           (if a then []
            else [if online then CallHandleApiResponse ident M else ParseAndHandleRelay M])"
proof -
  define E where "E = encodeMessageToChunks M a ident"
  define n where "n = fragmentCount (textEncode M)"
  define hs where "hs = heldFragments a (masterState s ident)"
  define i0 where "i0 = (case masterState s ident of None \<Rightarrow> ident | Some e \<Rightarrow> ms_id e)"
  define fm where "fm = (case masterState s ident of None \<Rightarrow> []
      | Some e \<Rightarrow> if \<not> isAck e \<and> a then [] else fullMessage e)"
  have lenE: "length E = n" by (simp add: E_def n_def length_encode)
  have len: "length order = n"
    using assms(4) lenE mset_eq_length[of order E] by (simp add: E_def)
  have setE: "set order = set E" using assms(4) mset_eq_setD[of order E] by (simp add: E_def)
  have wfE: "\<forall>c \<in> set E. hdr_id c = ident \<and> hdr_total c = n \<and> hdr_ack c = a \<and>
             length (payload c) = DATA_PER_CHUNK"
    using encode_headers[of _ M a ident] by (simp add: E_def n_def)
  have dE: "distinct (map hdr_seq E)"
    by (simp add: E_def encode_seqs distinct_map)
  then have distE: "distinct E" by (simp add: distinct_map)
  have "distinct order = distinct E"
    using assms(4) unfolding E_def by (rule mset_eq_imp_distinct_iff)
  then have dord: "distinct order" using distE by simp
  have nn: "removeNulls M = M" using assms(2) by (induction M) (auto simp: removeNulls_def)
  have R: "reassemble \<lparr>ms_id = i0, totalChunks = n, isComplete = True, isAck = a,
                         chunks = map (\<lambda>c. (hdr_seq c, c)) fs, fullMessage = fm\<rparr> = Inr M"
    if "mset fs = mset E" for fs
  proof -
    have l: "length fs = n" using that lenE mset_eq_length[of fs E] by simp
    show ?thesis
      using reassemble_permuted[OF that[unfolded E_def] assms(1) assms(3), of i0 True a fm]
      by (simp add: l nn)
  qed
  have held: "set hs \<subseteq> set E \<and> distinct hs \<and> length hs < n \<and>
      (masterState s ident =
               Some \<lparr>ms_id = i0, totalChunks = n, isComplete = False, isAck = a,
                      chunks = map (\<lambda>c. (hdr_seq c, c)) hs, fullMessage = fm\<rparr>
             \<or> (hs = [] \<and> fm = [] \<and> i0 = ident \<and> masterState s ident = None)
             \<or> (hs = [] \<and> fm = [] \<and> a \<and>
                 (\<exists>e. masterState s ident = Some e \<and> \<not> isAck e \<and> i0 = ms_id e)))"
  proof (cases "masterState s ident")
    case None
    then show ?thesis
      using fragmentCount_pos[of "textEncode M"]
      by (simp add: hs_def i0_def fm_def heldFragments_def n_def)
  next
    case (Some e)
    show ?thesis
    proof (cases "\<not> isAck e \<and> a")
      case True
      then show ?thesis
        using Some fragmentCount_pos[of "textEncode M"]
        by (simp add: hs_def i0_def fm_def heldFragments_def n_def)
    next
      case False
      then have c: "isAck e = a" "\<not> isComplete e" "totalChunks e = n"
          "length (chunks e) < n" "distinct (map fst (chunks e))"
          "\<forall>p \<in> set (chunks e). snd p \<in> set E \<and> fst p = hdr_seq (snd p)"
        using assms(6) Some lenE by (auto simp: awaitsFragments_def E_def)
      have h: "hs = map snd (chunks e)"
        using Some False by (auto simp: hs_def heldFragments_def)
      have pairs: "map (\<lambda>c. (hdr_seq c, c)) hs = chunks e"
        unfolding h using c(6) by (auto simp: comp_def intro!: map_idI)
      have fst: "map fst (chunks e) = map hdr_seq hs"
        unfolding h using c(6) by simp
      have d: "distinct hs" using c(5) unfolding fst by (simp add: distinct_map)
      have e: "e = \<lparr>ms_id = i0, totalChunks = n, isComplete = False, isAck = a,
                      chunks = map (\<lambda>c. (hdr_seq c, c)) hs, fullMessage = fm\<rparr>"
      proof -
        have i: "i0 = ms_id e" using Some by (simp add: i0_def)
        have f: "fm = fullMessage e" using Some False by (auto simp: fm_def)
        have "\<lparr>ms_id = ms_id e, totalChunks = n, isComplete = False, isAck = a,
                chunks = chunks e, fullMessage = fullMessage e\<rparr> = e"
          using c(1,2,3) by (cases e) simp
        then show ?thesis unfolding pairs i f by (rule sym)
      qed
      have ms: "masterState s ident =
               Some \<lparr>ms_id = i0, totalChunks = n, isComplete = False, isAck = a,
                      chunks = map (\<lambda>c. (hdr_seq c, c)) hs, fullMessage = fm\<rparr>"
        by (simp only: Some e[symmetric])
      have sub: "set hs \<subseteq> set E" using c(6) by (auto simp: h)
      have l: "length hs < n" using c(4) by (simp add: h)
      show ?thesis using sub d l ms by simp
    qed
  qed
  have cover: "set E \<subseteq> set hs \<union> set order" using setE by simp
  have xsE: "set order \<subseteq> set E" using setE by simp
  have "masterState (fst (deliver online now order s)) ident =
           Some \<lparr>ms_id = i0, totalChunks = n, isComplete = True, isAck = a,
                  chunks = map (\<lambda>c. (hdr_seq c, c)) (hs @ filter (\<lambda>c. c \<notin> set hs) order),
                  fullMessage = M\<rparr> \<and>
         snd (deliver online now order s) =
           (if a then []
            else [if online then CallHandleApiResponse ident M else ParseAndHandleRelay M])"
    using held
    by (intro deliver_held[OF wfE dE lenE xsE dord _ _ _ cover assms(5) _ R]) simp_all
  then show ?thesis by (simp add: len hs_def i0_def)
qed

section \<open>Concrete runs\<close>

text \<open>
  A device that has queued the acknowledgement of a report (id 1) and a message of its
  own (id 2) comes online: the acknowledgement stays, the message goes. With only the
  message queued, the queue becomes empty and the loop is stopped.
\<close>

theorem online_keeps_only_ack_entries_witness:
  "distinct (map fst (broadcastQueue
      (step (Broadcast 2 ''HELLO'') (queueAck 1 ''ok'' (mountState ''devB''))))) \<and>
   broadcastQueue (step (Broadcast 2 ''HELLO'') (queueAck 1 ''ok'' (mountState ''devB'')))
     = [(1, encodeMessageToChunks ''ok'' True 1), (2, encodeMessageToChunks ''HELLO'' False 2)] \<and>
   broadcastQueue (connectivityEffect True
      (step (Broadcast 2 ''HELLO'') (queueAck 1 ''ok'' (mountState ''devB''))))
     = [(1, encodeMessageToChunks ''ok'' True 1)] \<and>
   broadcastQueue (connectivityEffect True
      (step (Broadcast 2 ''HELLO'') (queueAck 1 ''ok'' (mountState ''devB''))))
     = filter (\<lambda>entry. \<exists>st. masterState
          (step (Broadcast 2 ''HELLO'') (queueAck 1 ''ok'' (mountState ''devB''))) (fst entry) = Some st \<and> isAck st)
        (broadcastQueue (step (Broadcast 2 ''HELLO'') (queueAck 1 ''ok'' (mountState ''devB'')))) \<and>
   broadcastQueue (connectivityEffect True (step (Broadcast 2 ''HELLO'') (mountState ''devB''))) = [] \<and>
   \<not> masterInterval (connectivityEffect True (step (Broadcast 2 ''HELLO'') (mountState ''devB'')))"
proof -
  let ?s = "step (Broadcast 2 ''HELLO'') (queueAck 1 ''ok'' (mountState ''devB''))"
  let ?t = "step (Broadcast 2 ''HELLO'') (mountState ''devB'')"
  have h: "distinct (map fst (broadcastQueue ?s))" by code_simp
  have h': "distinct (map fst (broadcastQueue ?t))" by code_simp
  have q: "broadcastQueue ?s
     = [(1, encodeMessageToChunks ''ok'' True 1), (2, encodeMessageToChunks ''HELLO'' False 2)]"
    by code_simp
  have k: "broadcastQueue (connectivityEffect True ?s) = [(1, encodeMessageToChunks ''ok'' True 1)]"
    by code_simp
  have e: "broadcastQueue (connectivityEffect True ?t) = []" by code_simp
  show ?thesis
    using online_keeps_only_ack_entries[OF h] online_keeps_only_ack_entries[OF h'] h q k e
    by simp
qed

text \<open>
  The callback is invoked for a response although no query is pending, and it is invoked
  a second time for a second response to a query that the first response resolved.
\<close>

theorem response_callback_without_pending_query_counterexample:
  "pendingQueries (onRelayResponse (mountState ''devB'')) = [] \<and>
   callbackLog (handleRelayMessage (deviceEnv True 7 NetworkError) (responseMessage ''q2'' ''42'')
      (onRelayResponse (mountState ''devB''))) = [(''q2'', ''42'')] \<and>
   callbackLog (handleRelayMessage (deviceEnv True 7 NetworkError) (responseMessage ''q2'' ''42'')
      (handleRelayMessage (deviceEnv True 7 NetworkError) (responseMessage ''q2'' ''42'')
         (trackPendingQuery ''q2'' ''m1'' ''hi'' (onRelayResponse (mountState ''devB'')))))
     = [(''q2'', ''42''), (''q2'', ''42'')]"
  by code_simp

text \<open>
  With query q2 pending, the response replaces the placeholder by the answer and empties
  the pending list; a second response, and a response for which nothing is pending,
  change neither.
\<close>

theorem response_delivered_once_per_pending_query_witness:
  "rm_type (responseMessage ''q2'' ''42'') = RELAY_RESPONSE \<and>
   relayResponseCallback (trackPendingQuery ''q2'' ''m1'' ''hi'' (onRelayResponse (mountState ''devB''))) \<and>
   truthy (response (responseMessage ''q2'' ''42'')) \<and>
   find (\<lambda>q. queryId q = ''q2'')
     (pendingQueries (trackPendingQuery ''q2'' ''m1'' ''hi'' (onRelayResponse (mountState ''devB''))))
     = Some \<lparr>queryId = ''q2'', messageId = ''m1'', pq_text = ''hi''\<rparr> \<and>
   messages (handleRelayMessage (deviceEnv True 7 NetworkError) (responseMessage ''q2'' ''42'')
      (trackPendingQuery ''q2'' ''m1'' ''hi'' (onRelayResponse (mountState ''devB''))))
     = [\<lparr>cm_id = ''0.5'', cm_text = ''42'', cm_user = 2\<rparr>] \<and>
   pendingQueries (handleRelayMessage (deviceEnv True 7 NetworkError) (responseMessage ''q2'' ''42'')
      (trackPendingQuery ''q2'' ''m1'' ''hi'' (onRelayResponse (mountState ''devB'')))) = [] \<and>
   find (\<lambda>q. queryId q = ''q2'') (pendingQueries (onRelayResponse (mountState ''devB''))) = None \<and>
   messages (handleRelayMessage (deviceEnv True 7 NetworkError) (responseMessage ''q2'' ''42'')
      (onRelayResponse (mountState ''devB''))) = [] \<and>
   messages (handleRelayMessage (deviceEnv False 8 NetworkError) (responseMessage ''q2'' ''43'')
      (handleRelayMessage (deviceEnv True 7 NetworkError) (responseMessage ''q2'' ''42'')
        (trackPendingQuery ''q2'' ''m1'' ''hi'' (onRelayResponse (mountState ''devB'')))))
     = [\<lparr>cm_id = ''0.5'', cm_text = ''42'', cm_user = 2\<rparr>]"
proof -
  let ?m = "responseMessage ''q2'' ''42''"
  let ?e = "deviceEnv True 7 NetworkError"
  let ?s = "trackPendingQuery ''q2'' ''m1'' ''hi'' (onRelayResponse (mountState ''devB''))"
  let ?t = "onRelayResponse (mountState ''devB'')"
  have h1: "rm_type ?m = RELAY_RESPONSE" by code_simp
  have h2: "relayResponseCallback ?s" by code_simp
  have h2': "relayResponseCallback ?t" by code_simp
  have h3: "truthy (response ?m)" by code_simp
  have q: "query_id ?m = ''q2''" "the (response ?m) = ''42''" by code_simp+
  have f: "find (\<lambda>q. queryId q = ''q2'') (pendingQueries ?s)
     = Some \<lparr>queryId = ''q2'', messageId = ''m1'', pq_text = ''hi''\<rparr>" by code_simp
  have f0: "find (\<lambda>q. queryId q = ''q2'') (pendingQueries ?t) = None" by code_simp
  have ms: "messages ?s = [\<lparr>cm_id = ''m1'', cm_text = searchingText, cm_user = 2\<rparr>]"
    "messages ?t = []"
    "pendingQueries ?s = [\<lparr>queryId = ''q2'', messageId = ''m1'', pq_text = ''hi''\<rparr>]"
    by code_simp+
  have ev: "randomKey ?e = ''0.5''" "responseText ?e ''42'' = ''42''" by code_simp+
  note T = response_delivered_once_per_pending_query[OF h1 h2 h3, of ?e]
  note T0 = response_delivered_once_per_pending_query[OF h1 h2' h3, of ?e]
  have a: "messages (handleRelayMessage ?e ?m ?s) = [\<lparr>cm_id = ''0.5'', cm_text = ''42'', cm_user = 2\<rparr>]"
    and b: "pendingQueries (handleRelayMessage ?e ?m ?s) = []"
    using T f by (simp_all add: q ms ev)
  have c: "messages (handleRelayMessage ?e ?m ?t) = []"
    using T0 f0 by (simp add: q ms)
  have h4: "rm_type (responseMessage ''q2'' ''43'') = RELAY_RESPONSE"
    "query_id (responseMessage ''q2'' ''43'') = query_id ?m" by code_simp+
  have d: "messages (handleRelayMessage (deviceEnv False 8 NetworkError) (responseMessage ''q2'' ''43'')
      (handleRelayMessage ?e ?m ?s)) = messages (handleRelayMessage ?e ?m ?s)"
    using T h4 by blast
  show ?thesis using h1 h2 h3 f f0 a b c d by simp
qed

text \<open>
  The one-chunk request \<open>HELLO\<close> with id 5 is complete; a fragment with the same id and
  the ack flag then resets the entry.
\<close>

theorem complete_entry_reset_by_ack_counterexample:
  "masterState (fst (handleIncomingChunk False 0 helloChunk (mountState ''devB''))) 5
     = Some \<lparr>ms_id = 5, totalChunks = 1, isComplete = True, isAck = False,
             chunks = [(1, helloChunk)], fullMessage = ''HELLO''\<rparr> \<and>
   hdr_id replyChunk = 5 \<and>
   masterState (fst (handleIncomingChunk False 1 replyChunk
       (fst (handleIncomingChunk False 0 helloChunk (mountState ''devB''))))) 5
     = Some \<lparr>ms_id = 5, totalChunks = 2, isComplete = False, isAck = True,
             chunks = [(1, replyChunk)], fullMessage = []\<rparr>"
  by code_simp

text \<open>The same request fragment, delivered again after completion, changes nothing.\<close>

theorem complete_entry_dropped_witness:
  "masterState (fst (handleIncomingChunk False 0 helloChunk (mountState ''devB''))) (hdr_id helloChunk)
     = Some \<lparr>ms_id = 5, totalChunks = 1, isComplete = True, isAck = False,
             chunks = [(1, helloChunk)], fullMessage = ''HELLO''\<rparr> \<and>
   \<not> hdr_ack helloChunk \<and>
   masterState (fst (handleIncomingChunk True 3 helloChunk
       (fst (handleIncomingChunk False 0 helloChunk (mountState ''devB'')))))
     = masterState (fst (handleIncomingChunk False 0 helloChunk (mountState ''devB''))) \<and>
   snd (handleIncomingChunk True 3 helloChunk
       (fst (handleIncomingChunk False 0 helloChunk (mountState ''devB'')))) = NoDispatch"
proof -
  let ?s = "fst (handleIncomingChunk False 0 helloChunk (mountState ''devB''))"
  let ?entry = "\<lparr>ms_id = 5, totalChunks = 1, isComplete = True, isAck = False,
             chunks = [(1, helloChunk)], fullMessage = ''HELLO''\<rparr>"
  have h1: "masterState ?s (hdr_id helloChunk) = Some ?entry" by code_simp
  have h2: "isComplete ?entry" by simp
  have h3: "isAck ?entry \<or> \<not> hdr_ack helloChunk" by (simp add: helloChunk_def)
  show ?thesis
    using complete_entry_dropped[OF h1 h2 h3, of True 3] h1 h3 by simp
qed

text \<open>The reset of the request entry of id 5 by the first fragment of its reply.\<close>

lemma ack_transition_in_place_instance:
  "length (payload replyChunk) = DATA_PER_CHUNK \<and> hdr_ack replyChunk \<and>
   masterState (fst (handleIncomingChunk False 0 helloChunk (mountState ''devB''))) (hdr_id replyChunk)
     = Some \<lparr>ms_id = 5, totalChunks = 1, isComplete = True, isAck = False,
             chunks = [(1, helloChunk)], fullMessage = ''HELLO''\<rparr> \<and>
   hdr_id replyChunk \<notin> ownMessageIds (fst (handleIncomingChunk False 0 helloChunk (mountState ''devB''))) \<and>
   ackTransition \<lparr>ms_id = 5, totalChunks = 1, isComplete = True, isAck = False,
             chunks = [(1, helloChunk)], fullMessage = ''HELLO''\<rparr> (hdr_total replyChunk)
     = \<lparr>ms_id = 5, totalChunks = 2, isComplete = False, isAck = True, chunks = [], fullMessage = []\<rparr> \<and>
   dom (masterState (fst (handleIncomingChunk False 1 replyChunk
          (fst (handleIncomingChunk False 0 helloChunk (mountState ''devB''))))))
     = dom (masterState (fst (handleIncomingChunk False 0 helloChunk (mountState ''devB''))))"
proof -
  let ?s = "fst (handleIncomingChunk False 0 helloChunk (mountState ''devB''))"
  let ?entry = "\<lparr>ms_id = 5, totalChunks = 1, isComplete = True, isAck = False,
             chunks = [(1, helloChunk)], fullMessage = ''HELLO''\<rparr>"
  have h1: "length (payload replyChunk) = DATA_PER_CHUNK" by code_simp
  have h2: "hdr_ack replyChunk" by code_simp
  have h3: "masterState ?s (hdr_id replyChunk) = Some ?entry" by code_simp
  have h4: "\<not> isAck ?entry" by simp
  have h5: "hdr_id replyChunk \<notin> ownMessageIds ?s" by code_simp
  have t: "hdr_total replyChunk = 2" by code_simp
  show ?thesis
    using ack_transition_in_place[OF h1 h2 h3 h4 h5, of False 1] h1 h2 h3 h5
    by (simp add: t ackTransition_def)
qed

text \<open>
  Claim C5, at a request of the device's own. The device sends \<open>HELLO\<close>:
  \<open>broadcastMessage\<close> stores the request entry under the generated id 7 and marks 7 as
  its own. The first fragment of the reply, with the ack flag and the id 7, then arrives
  while the stored entry is a non-ack request, and the entry is not transitioned: the
  check of lines 147-150 returns before lines 162-170, and the entry is still the
  request, with its fragments, its message and its role.
\<close>

theorem reply_to_own_request_is_dropped:
  "masterState (step (Broadcast 7 ''HELLO'') (mountState ''devB'')) 7
     = Some (newState 7 (encodeMessageToChunks ''HELLO'' False 7) ''HELLO'') \<and>
   isAck (newState 7 (encodeMessageToChunks ''HELLO'' False 7) ''HELLO'') = False \<and>
   hdr_id ownReplyChunk = 7 \<and> hdr_ack ownReplyChunk = True \<and>
   decodeSingleChunk ownReplyChunk
     = Some \<lparr>d_id = 7, d_totalChunks = 2, d_chunkNumber = 1, d_isAck = True,
             decodedData = ''OK fin''\<rparr> \<and>
   masterState (fst (handleIncomingChunk False 1 ownReplyChunk
       (step (Broadcast 7 ''HELLO'') (mountState ''devB'')))) 7
     = Some (newState 7 (encodeMessageToChunks ''HELLO'' False 7) ''HELLO'') \<and>
   snd (handleIncomingChunk False 1 ownReplyChunk
       (step (Broadcast 7 ''HELLO'') (mountState ''devB''))) = NoDispatch"
  by code_simp

text \<open>
  A message of two chunks is queued alone. After two ticks both chunks have been sent
  and the entry is still queued; after four ticks both have been sent twice.
\<close>

theorem entry_kept_after_last_chunk_counterexample:
  "broadcastQueue (step (Broadcast 7 ''HELLO WORLD'') (mountState ''devB''))
     = [(7, encodeMessageToChunks ''HELLO WORLD'' False 7)] \<and>
   length (encodeMessageToChunks ''HELLO WORLD'' False 7) = 2 \<and>
   broadcastLog (ticks 2 (step (Broadcast 7 ''HELLO WORLD'') (mountState ''devB'')))
     = encodeMessageToChunks ''HELLO WORLD'' False 7 \<and>
   broadcastQueue (ticks 2 (step (Broadcast 7 ''HELLO WORLD'') (mountState ''devB'')))
     = [(7, encodeMessageToChunks ''HELLO WORLD'' False 7)] \<and>
   broadcastLog (ticks 4 (step (Broadcast 7 ''HELLO WORLD'') (mountState ''devB'')))
     = encodeMessageToChunks ''HELLO WORLD'' False 7 @ encodeMessageToChunks ''HELLO WORLD'' False 7"
  by code_simp

text \<open>
  The queued two-chunk message is still queued after the two ticks that send it, and
  two more ticks send it again.
\<close>

theorem entry_with_chunks_is_never_removed_witness:
  "(7, encodeMessageToChunks ''HELLO WORLD'' False 7)
     \<in> set (broadcastQueue (step (Broadcast 7 ''HELLO WORLD'') (mountState ''devB''))) \<and>
   snd (7 :: nat, encodeMessageToChunks ''HELLO WORLD'' False 7) \<noteq> [] \<and>
   distinct (map fst (broadcastQueue (step (Broadcast 7 ''HELLO WORLD'') (mountState ''devB'')))) \<and>
   broadcastQueue (step (Broadcast 7 ''HELLO WORLD'') (mountState ''devB''))
     = [(7, encodeMessageToChunks ''HELLO WORLD'' False 7)] \<and>
   (7, encodeMessageToChunks ''HELLO WORLD'' False 7)
     \<in> set (broadcastQueue (ticks 2 (step (Broadcast 7 ''HELLO WORLD'') (mountState ''devB'')))) \<and>
   broadcastLog (ticks (2 + 2) (step (Broadcast 7 ''HELLO WORLD'') (mountState ''devB'')))
     = encodeMessageToChunks ''HELLO WORLD'' False 7 @ encodeMessageToChunks ''HELLO WORLD'' False 7"
proof -
  define s where "s = step (Broadcast 7 ''HELLO WORLD'') (mountState ''devB'')"
  let ?en = "(7 :: nat, encodeMessageToChunks ''HELLO WORLD'' False 7)"
  have q: "broadcastQueue s = [?en]" unfolding s_def by code_simp
  have h2: "snd ?en \<noteq> []" by code_simp
  have h1: "?en \<in> set (broadcastQueue s)" by (simp add: q)
  have h3: "distinct (map fst (broadcastQueue s))" by (simp add: q)
  have h4: "\<forall>other \<in> set (broadcastQueue s). snd other \<noteq> []" using h2 by (simp add: q)
  have T: "length (flatQueue (broadcastQueue s)) = 2" unfolding s_def by code_simp
  have p: "cursorPos (broadcastQueue s) (broadcastCursor s) = 0" unfolding s_def by code_simp
  have f: "flatQueue (broadcastQueue s) = encodeMessageToChunks ''HELLO WORLD'' False 7"
    by (simp add: q flatQueue_def)
  have l: "broadcastLog s = []" unfolding s_def by code_simp
  note R = entry_with_chunks_is_never_removed[OF h1 h2 h3]
  have a: "?en \<in> set (broadcastQueue (ticks 2 s))" using R[of 2] by blast
  have "broadcastLog (ticks (length (flatQueue (broadcastQueue s))
                                 + length (flatQueue (broadcastQueue s))) s)
      = encodeMessageToChunks ''HELLO WORLD'' False 7 @ encodeMessageToChunks ''HELLO WORLD'' False 7"
    using R[of 0] h4 by (simp add: p f l)
  then have b: "broadcastLog (ticks (2 + 2) s)
      = encodeMessageToChunks ''HELLO WORLD'' False 7 @ encodeMessageToChunks ''HELLO WORLD'' False 7"
    by (simp only: T)
  show ?thesis using h1 h2 h3 q a b unfolding s_def by blast
qed

text \<open>
  A message with a zero byte inside, one that ends in a zero byte, and one that begins
  with a byte order mark are reassembled without it: the entries hold \<open>AB\<close>, \<open>A\<close>
  and \<open>A\<close>. A message that is not UTF-8 comes back with U+FFFD, whose bytes are
  EF BF BD, in the place of each malformed sequence: the byte FF, the byte C3 when no
  continuation byte follows it, each byte of the overlong form C0 80 and of the
  surrogate ED A0 80, and the truncated sequence E2 82.
\<close>

theorem zero_bytes_are_lost_counterexample:
  "map_option fullMessage
     (masterState (fst (deliver False 0
        (encodeMessageToChunks [CHR ''A'', CHR 0x00, CHR ''B''] False 5) (mountState ''devB''))) 5)
     = Some ''AB'' \<and>
   map_option fullMessage
     (masterState (fst (deliver False 0
        (encodeMessageToChunks [CHR ''A'', CHR 0x00] False 5) (mountState ''devB''))) 5)
     = Some ''A'' \<and>
   map_option fullMessage
     (masterState (fst (deliver False 0
        (encodeMessageToChunks [CHR 0xEF, CHR 0xBB, CHR 0xBF, CHR ''A''] False 5)
        (mountState ''devB''))) 5)
     = Some ''A'' \<and>
   map_option fullMessage
     (masterState (fst (deliver False 0
        (encodeMessageToChunks [CHR 0xFF] False 5) (mountState ''devB''))) 5)
     = Some [CHR 0xEF, CHR 0xBF, CHR 0xBD] \<and>
   map_option fullMessage
     (masterState (fst (deliver False 0
        (encodeMessageToChunks [CHR 0xC3, CHR 0x28] False 5) (mountState ''devB''))) 5)
     = Some [CHR 0xEF, CHR 0xBF, CHR 0xBD, CHR 0x28] \<and>
   map_option fullMessage
     (masterState (fst (deliver False 0
        (encodeMessageToChunks [CHR 0xC0, CHR 0x80] False 5) (mountState ''devB''))) 5)
     = Some [CHR 0xEF, CHR 0xBF, CHR 0xBD, CHR 0xEF, CHR 0xBF, CHR 0xBD] \<and>
   map_option fullMessage
     (masterState (fst (deliver False 0
        (encodeMessageToChunks [CHR 0xED, CHR 0xA0, CHR 0x80] False 5) (mountState ''devB''))) 5)
     = Some [CHR 0xEF, CHR 0xBF, CHR 0xBD, CHR 0xEF, CHR 0xBF, CHR 0xBD,
             CHR 0xEF, CHR 0xBF, CHR 0xBD] \<and>
   map_option fullMessage
     (masterState (fst (deliver False 0
        (encodeMessageToChunks [CHR 0xE2, CHR 0x82] False 5) (mountState ''devB''))) 5)
     = Some [CHR 0xEF, CHR 0xBF, CHR 0xBD]"
  by code_simp

text \<open>
  The 20-byte scenario: four fragments delivered in the order 4, 2, 1, 3, to a device
  that holds nothing under the id, and to one that has received fragment 4 before. Then
  the two fragments of an acknowledgement \<open>OK fine\<close> under the same id, the last one
  first, to the device that holds the complete request.
\<close>

theorem reassembly_roundtrip_any_order_witness:
  "wellFormedUTF8 (textEncode scenarioMessage) \<and> CHR 0x00 \<notin> set scenarioMessage \<and>
   take 3 (textEncode scenarioMessage) \<noteq> utf8BOM \<and>
   mset scenarioOrder = mset (encodeMessageToChunks scenarioMessage False 5) \<and>
   5 \<notin> ownMessageIds (mountState ''devB'') \<and> masterState (mountState ''devB'') 5 = None \<and>
   length scenarioMessage = 20 \<and> map hdr_seq scenarioOrder = [4, 2, 1, 3] \<and>
   masterState (fst (deliver False 0 scenarioOrder (mountState ''devB''))) 5 =
     Some \<lparr>ms_id = 5, totalChunks = 4, isComplete = True, isAck = False,
            chunks = map (\<lambda>c. (hdr_seq c, c)) scenarioOrder, fullMessage = scenarioMessage\<rparr> \<and>
   snd (deliver False 0 scenarioOrder (mountState ''devB'')) = [ParseAndHandleRelay scenarioMessage] \<and>
   map_option (\<lambda>e. map fst (chunks e))
     (masterState (fst (handleIncomingChunk False 0 (hd scenarioOrder) (mountState ''devB''))) 5)
     = Some [4] \<and>
   masterState (fst (deliver False 0 scenarioOrder
       (fst (handleIncomingChunk False 0 (hd scenarioOrder) (mountState ''devB''))))) 5 =
     Some \<lparr>ms_id = 5, totalChunks = 4, isComplete = True, isAck = False,
            chunks = map (\<lambda>c. (hdr_seq c, c)) scenarioOrder, fullMessage = scenarioMessage\<rparr> \<and>
   snd (deliver False 0 scenarioOrder
       (fst (handleIncomingChunk False 0 (hd scenarioOrder) (mountState ''devB''))))
     = [ParseAndHandleRelay scenarioMessage] \<and>
   hd (encodeMessageToChunks ''OK fine'' True 5) = replyChunk \<and>
   masterState (fst (deliver False 0 (rev (encodeMessageToChunks ''OK fine'' True 5))
       (fst (deliver False 0 scenarioOrder (mountState ''devB''))))) 5 =
     Some \<lparr>ms_id = 5, totalChunks = 2, isComplete = True, isAck = True,
            chunks = map (\<lambda>c. (hdr_seq c, c)) (rev (encodeMessageToChunks ''OK fine'' True 5)),
            fullMessage = ''OK fine''\<rparr> \<and>
   snd (deliver False 0 (rev (encodeMessageToChunks ''OK fine'' True 5))
       (fst (deliver False 0 scenarioOrder (mountState ''devB'')))) = []"
proof -
  have h0: "wellFormedUTF8 (textEncode scenarioMessage)" by code_simp
  have h1: "CHR 0x00 \<notin> set scenarioMessage" by code_simp
  have h2: "take 3 (textEncode scenarioMessage) \<noteq> utf8BOM" by code_simp
  have l: "length (encodeMessageToChunks scenarioMessage False 5) = 4" by code_simp
  have "\<exists>c1 c2 c3 c4. encodeMessageToChunks scenarioMessage False 5 = [c1, c2, c3, c4]"
    using l by (auto simp: length_Suc_conv numeral_eq_Suc)
  then obtain c1 c2 c3 c4
    where e: "encodeMessageToChunks scenarioMessage False 5 = [c1, c2, c3, c4]" by blast
  have h3: "mset scenarioOrder = mset (encodeMessageToChunks scenarioMessage False 5)"
    by (simp add: scenarioOrder_def Let_def e)
  have h4: "5 \<notin> ownMessageIds (mountState ''devB'')" by (simp add: mountState_def)
  have n: "masterState (mountState ''devB'') 5 = None" by (simp add: mountState_def)
  have h5: "awaitsFragments (encodeMessageToChunks scenarioMessage False 5) False
              (masterState (mountState ''devB'') 5)"
    by (simp add: n awaitsFragments_def)
  have lo: "length scenarioOrder = 4" by (simp add: scenarioOrder_def Let_def)
  have a: "length scenarioMessage = 20" by code_simp
  have b: "map hdr_seq scenarioOrder = [4, 2, 1, 3]" by code_simp
  have first: "masterState (fst (deliver False 0 scenarioOrder (mountState ''devB''))) 5 =
     Some \<lparr>ms_id = 5, totalChunks = 4, isComplete = True, isAck = False,
            chunks = map (\<lambda>c. (hdr_seq c, c)) scenarioOrder, fullMessage = scenarioMessage\<rparr> \<and>
   snd (deliver False 0 scenarioOrder (mountState ''devB'')) = [ParseAndHandleRelay scenarioMessage]"
    using reassembly_roundtrip_any_order[OF h0 h1 h2 h3 h4 h5, of False 0]
    by (simp add: heldFragments_def lo n)

  define p where "p = fst (handleIncomingChunk False 0 (hd scenarioOrder) (mountState ''devB''))"
  have p4: "5 \<notin> ownMessageIds p" unfolding p_def by code_simp
  have p5: "awaitsFragments (encodeMessageToChunks scenarioMessage False 5) False
              (masterState p 5)" unfolding p_def by code_simp
  have pi: "(case masterState p 5 of None \<Rightarrow> 5 | Some e \<Rightarrow> ms_id e) = 5"
    unfolding p_def by code_simp
  have ph: "heldFragments False (masterState p 5) @
      filter (\<lambda>c. c \<notin> set (heldFragments False (masterState p 5))) scenarioOrder
      = scenarioOrder" unfolding p_def by code_simp
  have pc: "map_option (\<lambda>e. map fst (chunks e)) (masterState p 5) = Some [4]"
    unfolding p_def by code_simp
  have second: "masterState (fst (deliver False 0 scenarioOrder p)) 5 =
     Some \<lparr>ms_id = 5, totalChunks = 4, isComplete = True, isAck = False,
            chunks = map (\<lambda>c. (hdr_seq c, c)) scenarioOrder, fullMessage = scenarioMessage\<rparr> \<and>
   snd (deliver False 0 scenarioOrder p) = [ParseAndHandleRelay scenarioMessage]"
    using reassembly_roundtrip_any_order[OF h0 h1 h2 h3 p4 p5, of False 0]
    unfolding pi ph by (simp add: lo)

  define q where "q = fst (deliver False 0 scenarioOrder (mountState ''devB''))"
  define A where "A = encodeMessageToChunks ''OK fine'' True 5"
  have q0: "wellFormedUTF8 (textEncode ''OK fine'')" by code_simp
  have q1: "CHR 0x00 \<notin> set ''OK fine''" by code_simp
  have q2: "take 3 (textEncode ''OK fine'') \<noteq> utf8BOM" by code_simp
  have q3: "mset (rev A) = mset (encodeMessageToChunks ''OK fine'' True 5)"
    by (simp add: A_def)
  have q4: "5 \<notin> ownMessageIds q" unfolding q_def by code_simp
  have qm: "masterState q 5 =
     Some \<lparr>ms_id = 5, totalChunks = 4, isComplete = True, isAck = False,
            chunks = map (\<lambda>c. (hdr_seq c, c)) scenarioOrder, fullMessage = scenarioMessage\<rparr>"
    using first by (simp add: q_def)
  have q5: "awaitsFragments (encodeMessageToChunks ''OK fine'' True 5) True (masterState q 5)"
    by (simp add: qm awaitsFragments_def)
  have la: "length A = 2" unfolding A_def by code_simp
  have r: "hd (encodeMessageToChunks ''OK fine'' True 5) = replyChunk" by code_simp
  have third: "masterState (fst (deliver False 0 (rev A) q)) 5 =
     Some \<lparr>ms_id = 5, totalChunks = 2, isComplete = True, isAck = True,
            chunks = map (\<lambda>c. (hdr_seq c, c)) (rev A), fullMessage = ''OK fine''\<rparr> \<and>
   snd (deliver False 0 (rev A) q) = []"
    using reassembly_roundtrip_any_order[OF q0 q1 q2 q3 q4 q5, of False 0]
    by (simp add: qm heldFragments_def la)
  show ?thesis
    using h0 h1 h2 h3 h4 n a b first second pc third r
    unfolding p_def q_def A_def by blast
qed

text \<open>
  Two messages are queued, of two chunks and of one. Three ticks from the start of the
  loop send the three chunks in queue order; a tick on the empty queue stops the loop.
\<close>

theorem full_traversal_sends_every_chunk_witness:
  "broadcastQueue (step (Broadcast 2 ''HELLO'') (step (Broadcast 1 ''HELLO WORLD'') (mountState ''devB'')))
     = [(1, encodeMessageToChunks ''HELLO WORLD'' False 1), (2, encodeMessageToChunks ''HELLO'' False 2)] \<and>
   length (flatQueue (broadcastQueue
     (step (Broadcast 2 ''HELLO'') (step (Broadcast 1 ''HELLO WORLD'') (mountState ''devB''))))) = 3 \<and>
   broadcastLog (ticks 3
     (step (Broadcast 2 ''HELLO'') (step (Broadcast 1 ''HELLO WORLD'') (mountState ''devB''))))
     = encodeMessageToChunks ''HELLO WORLD'' False 1 @ encodeMessageToChunks ''HELLO'' False 2 \<and>
   broadcastQueue (mountState ''devB'') = [] \<and>
   \<not> masterInterval (tick (mountState ''devB''))"
proof -
  define s where
    "s = step (Broadcast 2 ''HELLO'') (step (Broadcast 1 ''HELLO WORLD'') (mountState ''devB''))"
  have q: "broadcastQueue s
     = [(1, encodeMessageToChunks ''HELLO WORLD'' False 1), (2, encodeMessageToChunks ''HELLO'' False 2)]"
    unfolding s_def by code_simp
  have ne: "encodeMessageToChunks ''HELLO WORLD'' False 1 \<noteq> []"
      "encodeMessageToChunks ''HELLO'' False 2 \<noteq> []" by code_simp+
  have h1: "broadcastQueue s \<noteq> []" by (simp add: q)
  have h2: "\<forall>entry \<in> set (broadcastQueue s). snd entry \<noteq> []"
    using ne by (simp add: q)
  have T: "length (flatQueue (broadcastQueue s)) = 3" unfolding s_def by code_simp
  have p: "cursorPos (broadcastQueue s) (broadcastCursor s) = 0" unfolding s_def by code_simp
  have f: "flatQueue (broadcastQueue s)
      = encodeMessageToChunks ''HELLO WORLD'' False 1 @ encodeMessageToChunks ''HELLO'' False 2"
    by (simp add: q flatQueue_def)
  have e: "broadcastQueue (mountState ''devB'') = []" by (simp add: mountState_def)
  have l: "broadcastLog s = []" unfolding s_def by code_simp
  note R = full_traversal_sends_every_chunk[OF h1 h2]
  have "broadcastLog (ticks (length (flatQueue (broadcastQueue s))) s)
      = encodeMessageToChunks ''HELLO WORLD'' False 1 @ encodeMessageToChunks ''HELLO'' False 2"
    using R by (simp add: p f l)
  then have a: "broadcastLog (ticks 3 s)
      = encodeMessageToChunks ''HELLO WORLD'' False 1 @ encodeMessageToChunks ''HELLO'' False 2"
    by (simp only: T)
  have b: "\<not> masterInterval (tick (mountState ''devB''))"
    using R e by blast
  show ?thesis using q T a b e unfolding s_def by blast
qed


end
